theory Spec2Isabelle
  imports Main "HOL-Library.AList" "HOL-Library.Word"
begin

section \<open>The reporting pipeline of the profiling agent\<close>

text \<open>
  A shallow embedding of \<^verbatim>\<open>reporter/otlp_reporter.go\<close> (the ingestion calls, the
  snapshot encoder \<^verbatim>\<open>getProfile\<close> and \<^verbatim>\<open>reportOTLPProfile\<close>) and of the symbol
  uploader (\<^verbatim>\<open>Upload\<close>, \<^verbatim>\<open>attemptUpload\<close>). Every function is a sequential run of
  the Go function of the same name: the state it touches is passed in and returned.
\<close>

subsection \<open>Identifiers of libpf\<close>

text \<open>
  The package libpf is not part of the sources at hand. Its identifiers are only compared
  and rendered as strings, so a file ID and a trace hash (a 128-bit hash each) are
  natural numbers here; an address or line number is Go's \<^verbatim>\<open>uint64\<close>, a frame ID is the
  pair that \<^verbatim>\<open>libpf.NewFrameID\<close> is given. The renderings \<^verbatim>\<open>StringNoQuotes\<close> and
  \<^verbatim>\<open>FrameType.String\<close> are parameters of the encoder (record \<open>world\<close> below).
\<close>

type_synonym FileID = nat
type_synonym TraceHash = nat
type_synonym AddressOrLineno = "64 word"
type_synonym SourceLineno = "64 word"
type_synonym FrameID = "FileID \<times> AddressOrLineno"

datatype FrameType =
    NativeFrame
  | KernelFrame
  | AbortFrame
  | InterpretedFrame nat  \<comment> \<open>every other frame kind, by its code\<close>

definition NewFrameID :: "FileID \<Rightarrow> AddressOrLineno \<Rightarrow> FrameID" where
  "NewFrameID fileID addressOrLine = (fileID, addressOrLine)"

text \<open>\<^verbatim>\<open>libpf.Trace\<close>, the argument of \<^verbatim>\<open>ReportFramesForTrace\<close>.\<close>

record Trace =
  Files :: "FileID list"
  Linenos :: "AddressOrLineno list"
  FrameTypes :: "FrameType list"
  Hash :: TraceHash

subsection \<open>The reporter's data\<close>

record traceInfo =
  files :: "FileID list"
  linenos :: "AddressOrLineno list"
  frameTypes :: "FrameType list"
  comm :: string
  podName :: string
  podNamespace :: string
  containerName :: string
  apmServiceName :: string

record sample =
  timestamps :: "64 word list"
  count :: "32 word"

record execInfo =
  fileName :: string
  buildID :: string

record sourceInfo =
  lineNumber :: SourceLineno
  functionOffset :: "32 word"
  functionName :: string
  filePath :: string

text \<open>
  \<^verbatim>\<open>funcInfo\<close>, the key of the function table. Its second field is \<^verbatim>\<open>fileName\<close> in the
  source; the name is taken by \<open>execInfo\<close> here.
\<close>

record funcInfo =
  name :: string
  funcFileName :: string

subsection \<open>The caches\<close>

text \<open>
  The caches are \<^verbatim>\<open>lru.SyncedLRU\<close> of the library go-freelru, which is not part of the
  sources. A cache is modelled by its content, an association list with one entry for
  a key: \<^verbatim>\<open>Peek\<close> and \<^verbatim>\<open>Get\<close> look a key up, \<^verbatim>\<open>Add\<close> inserts or overwrites,
  \<^verbatim>\<open>Remove\<close> deletes, \<^verbatim>\<open>Keys\<close> lists the keys. The eviction of the least recently used
  entry of a full cache is not modelled: the theorems are about runs in which the
  capacity is not exhausted.
\<close>

type_synonym ('k, 'v) lru = "('k \<times> 'v) list"

definition lru_Peek :: "('k, 'v) lru \<Rightarrow> 'k \<Rightarrow> 'v option" where
  "lru_Peek c k = map_of c k"

definition lru_Get :: "('k, 'v) lru \<Rightarrow> 'k \<Rightarrow> 'v option" where
  "lru_Get c k = map_of c k"

definition lru_Add :: "('k, 'v) lru \<Rightarrow> 'k \<Rightarrow> 'v \<Rightarrow> ('k, 'v) lru" where
  "lru_Add c k v = AList.update k v c"

definition lru_Remove :: "('k, 'v) lru \<Rightarrow> 'k \<Rightarrow> ('k, 'v) lru" where
  "lru_Remove c k = AList.delete k c"

definition lru_Keys :: "('k, 'v) lru \<Rightarrow> 'k list" where
  "lru_Keys c = map fst c"

record OTLPReporter =
  hostmetadata :: "(string, string) lru"
  traces :: "(TraceHash, traceInfo) lru"
  samples :: "(TraceHash, sample) lru"
  fallbackSymbols :: "(FrameID, string) lru"
  executables :: "(FileID, execInfo) lru"
  frames :: "(FileID, AddressOrLineno \<rightharpoonup> sourceInfo) lru"
  otlpBuildIDMode :: string

subsection \<open>The ingestion calls\<close>

definition ReportFramesForTrace :: "OTLPReporter \<Rightarrow> Trace \<Rightarrow> OTLPReporter" where
  "ReportFramesForTrace r trace =
     (case lru_Peek (traces r) (Hash trace) of
        Some v \<Rightarrow>
          r\<lparr>traces := lru_Add (traces r) (Hash trace)
                (v\<lparr>files := Files trace, linenos := Linenos trace,
                   frameTypes := FrameTypes trace\<rparr>)\<rparr>
      | None \<Rightarrow>
          r\<lparr>traces := lru_Add (traces r) (Hash trace)
                \<lparr>files = Files trace, linenos = Linenos trace,
                 frameTypes = FrameTypes trace, comm = [], podName = [],
                 podNamespace = [], containerName = [], apmServiceName = []\<rparr>\<rparr>)"

text \<open>
  The time stamp is a \<^verbatim>\<open>libpf.UnixTime32\<close> (32 bits), the count a \<^verbatim>\<open>uint16\<close>; both are
  widened, and the addition to the stored count wraps at 32 bits.
\<close>

definition ReportCountForTrace ::
  "OTLPReporter \<Rightarrow> TraceHash \<Rightarrow> 32 word \<Rightarrow> 16 word \<Rightarrow> string \<Rightarrow> string \<Rightarrow> string \<Rightarrow> string
     \<Rightarrow> OTLPReporter" where
  "ReportCountForTrace r traceHash timestamp cnt comm' podName' podNamespace' containerName' =
     (let r1 =
        (case lru_Peek (traces r) traceHash of
           Some v \<Rightarrow>
             r\<lparr>traces := lru_Add (traces r) traceHash
                   (v\<lparr>comm := comm', podName := podName',
                      podNamespace := podNamespace', containerName := containerName'\<rparr>)\<rparr>
         | None \<Rightarrow>
             r\<lparr>traces := lru_Add (traces r) traceHash
                   \<lparr>files = [], linenos = [], frameTypes = [], comm = comm',
                    podName = podName', podNamespace = podNamespace',
                    containerName = containerName', apmServiceName = []\<rparr>\<rparr>)
      in case lru_Peek (samples r1) traceHash of
           Some v \<Rightarrow>
             r1\<lparr>samples := lru_Add (samples r1) traceHash
                    (v\<lparr>count := count v + ucast cnt,
                       timestamps := timestamps v @ [ucast timestamp]\<rparr>)\<rparr>
         | None \<Rightarrow>
             r1\<lparr>samples := lru_Add (samples r1) traceHash
                    \<lparr>timestamps = [ucast timestamp], count = ucast cnt\<rparr>\<rparr>)"

definition ReportFallbackSymbol :: "OTLPReporter \<Rightarrow> FrameID \<Rightarrow> string \<Rightarrow> OTLPReporter" where
  "ReportFallbackSymbol r frameID symbol =
     (case lru_Peek (fallbackSymbols r) frameID of
        Some _ \<Rightarrow> r
      | None \<Rightarrow> r\<lparr>fallbackSymbols := lru_Add (fallbackSymbols r) frameID symbol\<rparr>)"

text \<open>
  \<^verbatim>\<open>FrameMetadata\<close>. The value that \<^verbatim>\<open>Get\<close> returns is a Go map, a reference: the
  assignment \<^verbatim>\<open>v[addressOrLine] = ...\<close> changes the map that the cache holds, which the
  model writes as an update of the cache entry.
\<close>

definition FrameMetadata ::
  "OTLPReporter \<Rightarrow> FileID \<Rightarrow> AddressOrLineno \<Rightarrow> SourceLineno \<Rightarrow> 32 word \<Rightarrow> string \<Rightarrow> string
     \<Rightarrow> OTLPReporter" where
  "FrameMetadata r fileID addressOrLine lineNumber' functionOffset' functionName' filePath' =
     (case lru_Get (frames r) fileID of
        Some v \<Rightarrow>
          (let filePath'' =
             (if filePath' = []
              then (case v addressOrLine of Some s \<Rightarrow> filePath s | None \<Rightarrow> filePath')
              else filePath')
           in r\<lparr>frames := lru_Add (frames r) fileID
                   (v(addressOrLine \<mapsto>
                      \<lparr>lineNumber = lineNumber', functionOffset = functionOffset',
                       functionName = functionName', filePath = filePath''\<rparr>))\<rparr>)
      | None \<Rightarrow>
          r\<lparr>frames := lru_Add (frames r) fileID
                (Map.empty(addressOrLine \<mapsto>
                   \<lparr>lineNumber = lineNumber', functionOffset = functionOffset',
                    functionName = functionName', filePath = filePath'\<rparr>))\<rparr>)"

text \<open>\<^verbatim>\<open>addHostmetadata\<close> ranges over the given map; the model takes its entries as a list.\<close>

definition addHostmetadata :: "OTLPReporter \<Rightarrow> (string \<times> string) list \<Rightarrow> OTLPReporter" where
  "addHostmetadata r metadataMap =
     r\<lparr>hostmetadata := foldl (\<lambda>c (k, v). lru_Add c k v) (hostmetadata r) metadataMap\<rparr>"

definition ReportHostMetadata :: "OTLPReporter \<Rightarrow> (string \<times> string) list \<Rightarrow> OTLPReporter" where
  "ReportHostMetadata r metadataMap = addHostmetadata r metadataMap"

text \<open>
  A run of the collector is a list of ingestion calls, applied one after the other.
\<close>

datatype ingestCall =
    CallReportFramesForTrace Trace
  | CallReportCountForTrace TraceHash "32 word" "16 word" string string string string
  | CallReportFallbackSymbol FrameID string
  | CallFrameMetadata FileID AddressOrLineno SourceLineno "32 word" string string
  | CallReportHostMetadata "(string \<times> string) list"

fun ingest :: "OTLPReporter \<Rightarrow> ingestCall \<Rightarrow> OTLPReporter" where
  "ingest r (CallReportFramesForTrace t) = ReportFramesForTrace r t"
| "ingest r (CallReportCountForTrace h ts n c p ns cn) = ReportCountForTrace r h ts n c p ns cn"
| "ingest r (CallReportFallbackSymbol i s) = ReportFallbackSymbol r i s"
| "ingest r (CallFrameMetadata f a l off fn fp) = FrameMetadata r f a l off fn fp"
| "ingest r (CallReportHostMetadata m) = ReportHostMetadata r m"

text \<open>The file path that the frames cache holds for a file ID and an address, if any.\<close>

definition storedFilePath :: "OTLPReporter \<Rightarrow> FileID \<Rightarrow> AddressOrLineno \<Rightarrow> string option" where
  "storedFilePath r f a =
     (case lru_Get (frames r) f of
        None \<Rightarrow> None
      | Some v \<Rightarrow> (case v a of None \<Rightarrow> None | Some s \<Rightarrow> Some (filePath s)))"

text \<open>A reporter with empty caches, as \<^verbatim>\<open>StartOTLP\<close> creates it.\<close>

definition emptyReporter :: "string \<Rightarrow> OTLPReporter" where
  "emptyReporter mode =
     \<lparr>hostmetadata = [], traces = [], samples = [], fallbackSymbols = [],
      executables = [], frames = [], otlpBuildIDMode = mode\<rparr>"

section \<open>The snapshot encoder\<close>

subsection \<open>Errors and panics\<close>

datatype error =
    Err string  \<comment> \<open>an error of the remote store, of the file system or of the transport\<close>
  | Wrap string error  \<comment> \<open>\<^verbatim>\<open>fmt.Errorf("...: %w", err)\<close>\<close>
  | UnexpectedStatus int string

text \<open>The run-time panics of Go that the encoder can meet.\<close>

datatype panic = IndexOutOfRange | DivideByZero

subsection \<open>The wire format\<close>

text \<open>
  The messages of \<^verbatim>\<open>pprofextended\<close>, with the fields that the encoder sets. An index
  (\<^verbatim>\<open>uint32\<close>, \<^verbatim>\<open>uint64\<close> or \<^verbatim>\<open>int64\<close> in Go) is a natural number. The field \<^verbatim>\<open>Line\<close>
  of a location is \<open>Lines\<close> and the field \<^verbatim>\<open>Filename\<close> of a function is
  \<open>FunctionFilename\<close>, since a line and a mapping have fields of these names.
\<close>

datatype BuildIdKind = BUILD_ID_LINKER | BUILD_ID_BINARY_HASH

record ValueType =
  Type :: nat
  Unit :: nat

record Label =
  Key :: nat
  Str :: nat

record Sample =
  LocationsStartIndex :: nat
  LocationsLength :: nat
  StacktraceIdIndex :: nat
  Timestamps :: "64 word list"
  Value :: "64 word list"
  Label :: "Label list"

record Line =
  FunctionIndex :: nat
  Line :: "64 word"

record Location =
  TypeIndex :: nat
  Address :: "64 word"
  Lines :: "Line list"
  MappingIndex :: nat

record Mapping =
  FileOffset :: "64 word"
  Filename :: nat
  BuildId :: nat
  BuildIdKind :: BuildIdKind

record Function =
  Name :: nat
  FunctionFilename :: nat

text \<open>
  \<^verbatim>\<open>Profile.Function\<close> is a slice of pointers that is allocated first and filled by index
  afterwards: a slot that was never written is nil, \<open>None\<close> here.
\<close>

record Profile =
  SampleType :: "ValueType list"
  Sample :: "Sample list"
  Mapping :: "Mapping list"
  Location :: "Location list"
  LocationIndices :: "nat list"
  Function :: "Function option list"
  StringTable :: "string list"
  PeriodType :: ValueType
  Period :: int
  DurationNanos :: "64 word"
  TimeNanos :: "64 word"

subsection \<open>What the encoder takes from outside\<close>

text \<open>
  The renderings of libpf, the configured sampling frequency and the version strings,
  and the order in which the Go run time ranges over each map: Go leaves this order
  open, so every \<^verbatim>\<open>range\<close> over a map has its own parameter, a list of keys.
\<close>

record world =
  TraceHash_StringNoQuotes :: "TraceHash \<Rightarrow> string"
  FileID_StringNoQuotes :: "FileID \<Rightarrow> string"
  FrameType_String :: "FrameType \<Rightarrow> string"
  SamplesPerSecond :: nat
  Version :: string
  Revision :: string
  range_samplesCpy_first :: "TraceHash list"
  range_samplesCpy_second :: "TraceHash list"
  range_funcMap :: "funcInfo list"
  range_stringMap :: "string list"

text \<open>
  A Go map is an association list in the order of insertion, with one entry for a key.
  Ranging over it visits every entry once, in an order of the run time's choice: the
  entries whose keys the list \<open>ord\<close> names, in the order of \<open>ord\<close>, and after
  them the entries that \<open>ord\<close> does not name. Every order of the entries is
  \<open>rangeMap ord m\<close> for a list \<open>ord\<close>.
\<close>

definition rangeMap :: "'k list \<Rightarrow> ('k \<times> 'v) list \<Rightarrow> ('k \<times> 'v) list" where
  "rangeMap ord m =
     List.map_filter (\<lambda>k. map_option (Pair k) (map_of m k)) (remdups ord)
       @ filter (\<lambda>kv. fst kv \<notin> set ord) m"

subsection \<open>The string table and the function table\<close>

text \<open>\<^verbatim>\<open>getStringMapIndex\<close>: the new index is \<^verbatim>\<open>uint32(len(stringMap))\<close>.\<close>

definition getStringMapIndex ::
  "(string \<times> nat) list \<Rightarrow> string \<Rightarrow> nat \<times> (string \<times> nat) list" where
  "getStringMapIndex stringMap value =
     (case map_of stringMap value of
        Some idx \<Rightarrow> (idx, stringMap)
      | None \<Rightarrow>
          (let idx = length stringMap mod 2 ^ 32
           in (idx, stringMap @ [(value, idx)])))"

text \<open>\<^verbatim>\<open>createFunctionEntry\<close>: the new index is \<^verbatim>\<open>uint64(len(funcMap))\<close>, the length itself.\<close>

definition createFunctionEntry ::
  "(funcInfo \<times> nat) list \<Rightarrow> string \<Rightarrow> string \<Rightarrow> nat \<times> (funcInfo \<times> nat) list" where
  "createFunctionEntry funcMap name' fileName' =
     (let key = \<lparr>name = name', funcFileName = fileName'\<rparr>
      in case map_of funcMap key of
           Some idx \<Rightarrow> (idx, funcMap)
         | None \<Rightarrow>
             (let idx = length funcMap
              in (idx, funcMap @ [(key, idx)])))"

subsection \<open>The variables of \<^verbatim>\<open>getProfile\<close>\<close>

text \<open>
  The maps and counters that \<^verbatim>\<open>getProfile\<close> declares, and the three slices of the
  profile that grow while the samples are encoded.
\<close>

record encoder =
  stringMap :: "(string \<times> nat) list"
  funcMap :: "(funcInfo \<times> nat) list"
  fileIDtoMapping :: "(FileID \<times> nat) list"
  frameIDtoFunction :: "FrameID \<rightharpoonup> nat"
  profile_Sample :: "Sample list"
  profile_Mapping :: "Mapping list"
  profile_Location :: "Location list"
  locationIndex :: nat
  startTS :: "64 word"
  endTS :: "64 word"

text \<open>The two table functions on the encoder's maps.\<close>

definition stringIndex :: "string \<Rightarrow> encoder \<Rightarrow> nat \<times> encoder" where
  "stringIndex value e =
     (case getStringMapIndex (stringMap e) value of
        (idx, sm) \<Rightarrow> (idx, e\<lparr>stringMap := sm\<rparr>))"

definition functionEntry :: "string \<Rightarrow> string \<Rightarrow> encoder \<Rightarrow> nat \<times> encoder" where
  "functionEntry name' fileName' e =
     (case createFunctionEntry (funcMap e) name' fileName' of
        (idx, fm) \<Rightarrow> (idx, e\<lparr>funcMap := fm\<rparr>))"

subsection \<open>\<^verbatim>\<open>getTraceLabels\<close> and \<^verbatim>\<open>getDummyMappingIndex\<close>\<close>

text \<open>One of the five blocks of \<^verbatim>\<open>getTraceLabels\<close>: a label for a non-empty value.\<close>

definition appendLabel :: "string \<Rightarrow> string \<Rightarrow> Label list \<times> encoder \<Rightarrow> Label list \<times> encoder" where
  "appendLabel key value le =
     (case le of
        (labels, e) \<Rightarrow>
          if value \<noteq> [] then
            (case stringIndex key e of
               (keyIdx, e1) \<Rightarrow>
                 (case stringIndex value e1 of
                    (valueIdx, e2) \<Rightarrow> (labels @ [\<lparr>Key = keyIdx, Str = valueIdx\<rparr>], e2)))
          else (labels, e))"

definition getTraceLabels :: "traceInfo \<Rightarrow> encoder \<Rightarrow> Label list \<times> encoder" where
  "getTraceLabels i e =
     appendLabel ''apmServiceName'' (apmServiceName i)
       (appendLabel ''containerName'' (containerName i)
          (appendLabel ''podNamespace'' (podNamespace i)
             (appendLabel ''podName'' (podName i)
                (appendLabel ''comm'' (comm i) ([], e)))))"

definition getDummyMappingIndex :: "world \<Rightarrow> FileID \<Rightarrow> encoder \<Rightarrow> nat \<times> encoder" where
  "getDummyMappingIndex W fileID e =
     (case map_of (fileIDtoMapping e) fileID of
        Some tmpMappingIndex \<Rightarrow> (tmpMappingIndex, e)
      | None \<Rightarrow>
          (let idx = length (fileIDtoMapping e);
               e1 = e\<lparr>fileIDtoMapping := fileIDtoMapping e @ [(fileID, idx)]\<rparr>
           in case stringIndex ''DUMMY'' e1 of
                (fileNameIdx, e2) \<Rightarrow>
                  (case stringIndex (FileID_StringNoQuotes W fileID) e2 of
                     (buildIdIdx, e3) \<Rightarrow>
                       (idx,
                        e3\<lparr>profile_Mapping := profile_Mapping e3 @
                             [\<lparr>FileOffset = 0, Filename = fileNameIdx, BuildId = buildIdIdx,
                               BuildIdKind = BUILD_ID_BINARY_HASH\<rparr>]\<rparr>))))"

subsection \<open>One frame\<close>

text \<open>
  The body of the loop over the frames of a trace, for the frame at index \<open>i\<close>, which
  is below the length of \<open>frameTypes\<close>. Indexing \<open>linenos\<close> or \<open>files\<close> beyond its
  length panics. An abort frame reads no file ID. The map \<open>frameIDtoFunction\<close> is
  looked up but never written. For a native frame with a new file ID, \<open>build1\<close> is
  the pair of \<^verbatim>\<open>buildID\<close> and \<^verbatim>\<open>buildIDKind\<close> after the test for the mode "linker"
  (where \<^verbatim>\<open>execInfo\<close> is the zero value if the cache has no entry, and the zero value of
  the kind is \<^verbatim>\<open>BUILD_ID_LINKER\<close>), and \<open>build2\<close> the pair after the test for "hash".
\<close>

definition encodeFrame ::
  "world \<Rightarrow> OTLPReporter \<Rightarrow> traceInfo \<Rightarrow> nat \<Rightarrow> encoder \<Rightarrow> panic + encoder" where
  "encodeFrame W r trace i e =
     (let frameKind = frameTypes trace ! i
      in case stringIndex (FrameType_String W frameKind) e of
        (typeIndex, e1) \<Rightarrow>
          if length (linenos trace) \<le> i then Inl IndexOutOfRange
          else
            (let loc = \<lparr>TypeIndex = typeIndex, Address = linenos trace ! i, Lines = [],
                        MappingIndex = 0\<rparr>
             in case frameKind of
               NativeFrame \<Rightarrow>
                 if length (files trace) \<le> i then Inl IndexOutOfRange
                 else
                   (case map_of (fileIDtoMapping e1) (files trace ! i) of
                      Some tmpMappingIndex \<Rightarrow>
                        Inr (e1\<lparr>profile_Location := profile_Location e1 @
                                 [loc\<lparr>MappingIndex := tmpMappingIndex + 1\<rparr>]\<rparr>)
                    | None \<Rightarrow>
                        (let idx = length (fileIDtoMapping e1);
                             e2 = e1\<lparr>fileIDtoMapping :=
                                      fileIDtoMapping e1 @ [(files trace ! i, idx)]\<rparr>;
                             execInfo' = lru_Get (executables r) (files trace ! i);
                             fileName' = (case execInfo' of
                                            Some x \<Rightarrow> fileName x | None \<Rightarrow> ''UNKNOWN'');
                             build1 = (if otlpBuildIDMode r = ''linker''
                                       then (case execInfo' of
                                               Some x \<Rightarrow> buildID x | None \<Rightarrow> [],
                                             BUILD_ID_LINKER)
                                       else (''UNKNOWN'', BUILD_ID_LINKER));
                             build2 = (if otlpBuildIDMode r = ''hash''
                                       then (FileID_StringNoQuotes W (files trace ! i),
                                             BUILD_ID_BINARY_HASH)
                                       else build1)
                         in case stringIndex fileName' e2 of
                           (fileNameIdx, e3) \<Rightarrow>
                             (case stringIndex (fst build2) e3 of
                                (buildIdIdx, e4) \<Rightarrow>
                                  Inr (e4\<lparr>profile_Mapping := profile_Mapping e4 @
                                           [\<lparr>FileOffset = linenos trace ! i,
                                             Filename = fileNameIdx, BuildId = buildIdIdx,
                                             BuildIdKind = snd build2\<rparr>],
                                         profile_Location := profile_Location e4 @
                                           [loc\<lparr>MappingIndex := idx + 1\<rparr>]\<rparr>))))
             | KernelFrame \<Rightarrow>
                 if length (files trace) \<le> i then Inl IndexOutOfRange
                 else
                   (let frameID = NewFrameID (files trace ! i) (linenos trace ! i)
                    in case (case frameIDtoFunction e1 frameID of
                               Some tmpFunctionIndex \<Rightarrow> (tmpFunctionIndex + 1, e1)
                             | None \<Rightarrow>
                                 (case functionEntry
                                         (case lru_Get (fallbackSymbols r) frameID of
                                            Some symbol \<Rightarrow> symbol | None \<Rightarrow> ''UNKNOWN'')
                                         ''vmlinux'' e1 of
                                    (idx, e2) \<Rightarrow> (idx + 1, e2))) of
                      (functionIndex, e2) \<Rightarrow>
                        (case getDummyMappingIndex W (files trace ! i) e2 of
                           (mappingIdx, e3) \<Rightarrow>
                             Inr (e3\<lparr>profile_Location := profile_Location e3 @
                                      [loc\<lparr>Lines := [\<lparr>FunctionIndex = functionIndex,
                                                       Line = 0\<rparr>],
                                           MappingIndex := mappingIdx + 1\<rparr>]\<rparr>)))
             | AbortFrame \<Rightarrow>
                 Inr (e1\<lparr>profile_Location := profile_Location e1 @ [loc]\<rparr>)
             | InterpretedFrame kind \<Rightarrow>
                 if length (files trace) \<le> i then Inl IndexOutOfRange
                 else
                   (case (case lru_Get (frames r) (files trace ! i) of
                            None \<Rightarrow>
                              (case functionEntry ''UNREPORTED''
                                      (FrameType_String W frameKind) e1 of
                                 (idx, e2) \<Rightarrow> (\<lparr>FunctionIndex = idx + 1, Line = 0\<rparr>, e2))
                          | Some fileIDInfo \<Rightarrow>
                              (case fileIDInfo (linenos trace ! i) of
                                 None \<Rightarrow>
                                   (case functionEntry ''UNRESOLVED''
                                           (FrameType_String W frameKind) e1 of
                                      (idx, e2) \<Rightarrow>
                                        (\<lparr>FunctionIndex = idx + 1, Line = 0\<rparr>, e2))
                               | Some si \<Rightarrow>
                                   (case functionEntry (functionName si) (filePath si) e1 of
                                      (idx, e2) \<Rightarrow>
                                        (\<lparr>FunctionIndex = idx + 1, Line = lineNumber si\<rparr>,
                                         e2)))) of
                      (line, e2) \<Rightarrow>
                        (case getDummyMappingIndex W (files trace ! i) e2 of
                           (mappingIdx, e3) \<Rightarrow>
                             Inr (e3\<lparr>profile_Location := profile_Location e3 @
                                      [loc\<lparr>Lines := [line],
                                           MappingIndex := mappingIdx + 1\<rparr>]\<rparr>)))))"

text \<open>The loop over the frames: \<open>is\<close> are the indices still to visit.\<close>

fun encodeFrames ::
  "world \<Rightarrow> OTLPReporter \<Rightarrow> traceInfo \<Rightarrow> nat list \<Rightarrow> encoder \<Rightarrow> panic + encoder" where
  "encodeFrames W r trace [] e = Inr e"
| "encodeFrames W r trace (i # is) e =
     (case encodeFrame W r trace i e of
        Inl p \<Rightarrow> Inl p
      | Inr e' \<Rightarrow> encodeFrames W r trace is e')"

subsection \<open>One sample\<close>

text \<open>
  The loop over the time stamps of a sample, on the pair of \<^verbatim>\<open>startTS\<close> and
  \<^verbatim>\<open>endTS\<close>: a time stamp that becomes the start is not compared with the end
  (\<^verbatim>\<open>continue\<close>).
\<close>

fun trackTimestamps :: "64 word list \<Rightarrow> 64 word \<times> 64 word \<Rightarrow> 64 word \<times> 64 word" where
  "trackTimestamps [] (start, end') = (start, end')"
| "trackTimestamps (ts # tss) (start, end') =
     (if ts < start \<or> start = 0 then trackTimestamps tss (ts, end')
      else if end' < ts then trackTimestamps tss (start, ts)
      else trackTimestamps tss (start, end'))"

text \<open>
  \<^verbatim>\<open>time.Unix(int64(ts), 0).UnixMilli()\<close> and \<^verbatim>\<open>.UnixNano()\<close>, converted to 64 bits:
  the seconds times 1000, or times \<open>10\<^sup>9\<close>, in 64-bit arithmetic.
\<close>

definition UnixMilli :: "64 word \<Rightarrow> 64 word" where
  "UnixMilli ts = ts * 1000"

definition UnixNano :: "64 word \<Rightarrow> 64 word" where
  "UnixNano ts = ts * 1000000000"

definition zeroTraceInfo :: traceInfo where
  "zeroTraceInfo =
     \<lparr>files = [], linenos = [], frameTypes = [], comm = [], podName = [],
      podNamespace = [], containerName = [], apmServiceName = []\<rparr>"

text \<open>The body of the loop over \<^verbatim>\<open>samplesCpy\<close>, for one trace hash and its sample.\<close>

definition encodeSample ::
  "world \<Rightarrow> OTLPReporter \<Rightarrow> TraceHash \<times> sample \<Rightarrow> encoder \<Rightarrow> panic + encoder" where
  "encodeSample W r entry e =
     (let traceHash = fst entry; sampleInfo = snd entry;
          locationsStartIndex = locationIndex e;
          trace = (case lru_Get (traces r) traceHash of
                     Some t \<Rightarrow> t | None \<Rightarrow> zeroTraceInfo)
      in case stringIndex (TraceHash_StringNoQuotes W traceHash) e of
        (stacktraceIdIndex, e1) \<Rightarrow>
          (let tracked = trackTimestamps (timestamps sampleInfo) (startTS e1, endTS e1);
               e2 = e1\<lparr>startTS := fst tracked, endTS := snd tracked\<rparr>
           in case encodeFrames W r trace [0..<length (frameTypes trace)] e2 of
             Inl p \<Rightarrow> Inl p
           | Inr e3 \<Rightarrow>
               (case getTraceLabels trace e3 of
                  (labels, e4) \<Rightarrow>
                    Inr (e4\<lparr>locationIndex := locationIndex e4 + length (frameTypes trace),
                            profile_Sample := profile_Sample e4 @
                              [\<lparr>LocationsStartIndex = locationsStartIndex,
                                LocationsLength = length (frameTypes trace),
                                StacktraceIdIndex = stacktraceIdIndex,
                                Timestamps = map UnixMilli (timestamps sampleInfo),
                                Value = [ucast (count sampleInfo)],
                                Label = labels\<rparr>]\<rparr>))))"

fun encodeSamples ::
  "world \<Rightarrow> OTLPReporter \<Rightarrow> (TraceHash \<times> sample) list \<Rightarrow> encoder \<Rightarrow> panic + encoder" where
  "encodeSamples W r [] e = Inr e"
| "encodeSamples W r (entry # entries) e =
     (case encodeSample W r entry e of
        Inl p \<Rightarrow> Inl p
      | Inr e' \<Rightarrow> encodeSamples W r entries e')"

subsection \<open>\<^verbatim>\<open>getProfile\<close>\<close>

text \<open>
  The first loop: every key of the samples cache that \<^verbatim>\<open>Get\<close> still finds is copied
  into \<^verbatim>\<open>samplesCpy\<close> and removed from the cache.
\<close>

fun drainSamples ::
  "TraceHash list \<Rightarrow> (TraceHash \<times> sample) list \<times> (TraceHash, sample) lru
     \<Rightarrow> (TraceHash \<times> sample) list \<times> (TraceHash, sample) lru" where
  "drainSamples [] (samplesCpy, c) = (samplesCpy, c)"
| "drainSamples (k # ks) (samplesCpy, c) =
     (case lru_Get c k of
        None \<Rightarrow> drainSamples ks (samplesCpy, c)
      | Some v \<Rightarrow> drainSamples ks (AList.update k v samplesCpy, lru_Remove c k))"

definition zeroSample :: sample where
  "zeroSample = \<lparr>timestamps = [], count = 0\<rparr>"

text \<open>
  The loop over \<^verbatim>\<open>samplesWoTraceinfo\<close>: the sample goes back into the cache and leaves
  \<^verbatim>\<open>samplesCpy\<close>. (Reading a Go map at a missing key gives the zero value.)
\<close>

fun returnSamples ::
  "TraceHash list \<Rightarrow> (TraceHash \<times> sample) list \<times> (TraceHash, sample) lru
     \<Rightarrow> (TraceHash \<times> sample) list \<times> (TraceHash, sample) lru" where
  "returnSamples [] (samplesCpy, c) = (samplesCpy, c)"
| "returnSamples (trace # ts) (samplesCpy, c) =
     returnSamples ts
       (AList.delete trace samplesCpy,
        lru_Add c trace (case map_of samplesCpy trace of Some v \<Rightarrow> v | None \<Rightarrow> zeroSample))"

text \<open>
  \<^verbatim>\<open>getProfile\<close> up to the declaration of \<^verbatim>\<open>stringMap\<close>: the working set
  \<^verbatim>\<open>samplesCpy\<close> and the reporter.
\<close>

definition drainAndReturn ::
  "world \<Rightarrow> OTLPReporter \<Rightarrow> (TraceHash \<times> sample) list \<times> OTLPReporter" where
  "drainAndReturn W r =
     (case drainSamples (lru_Keys (samples r)) ([], samples r) of
        (samplesCpy, c) \<Rightarrow>
          (let samplesWoTraceinfo =
                 filter (\<lambda>trace. lru_Peek (traces r) trace = None)
                   (map fst (rangeMap (range_samplesCpy_first W) samplesCpy))
           in case returnSamples samplesWoTraceinfo (samplesCpy, c) of
                (samplesCpy', c') \<Rightarrow> (samplesCpy', r\<lparr>samples := c'\<rparr>)))"

text \<open>
  The two tables at the end: a slice of the length of the map is allocated and every
  entry of the map is written at its index (beyond the length, Go panics). The entry of
  the function table takes its two strings from the string table, which may grow.
\<close>

fun fillFuncTable ::
  "(funcInfo \<times> nat) list \<Rightarrow> Function option list \<times> encoder
     \<Rightarrow> panic + Function option list \<times> encoder" where
  "fillFuncTable [] (funcTable, e) = Inr (funcTable, e)"
| "fillFuncTable ((v, idx) # rest) (funcTable, e) =
     (case stringIndex (name v) e of
        (nameIdx, e1) \<Rightarrow>
          (case stringIndex (funcFileName v) e1 of
             (fileNameIdx, e2) \<Rightarrow>
               if length funcTable \<le> idx then Inl IndexOutOfRange
               else fillFuncTable rest
                      (funcTable[idx := Some \<lparr>Name = nameIdx, FunctionFilename = fileNameIdx\<rparr>],
                       e2)))"

fun fillStringTable :: "(string \<times> nat) list \<Rightarrow> string list \<Rightarrow> panic + string list" where
  "fillStringTable [] stringTable = Inr stringTable"
| "fillStringTable ((v, idx) # rest) stringTable =
     (if length stringTable \<le> idx then Inl IndexOutOfRange
      else fillStringTable rest (stringTable[idx := v]))"

definition newEncoder :: encoder where
  "newEncoder =
     \<lparr>stringMap = [([], 0)], funcMap = [], fileIDtoMapping = [],
      frameIDtoFunction = Map.empty, profile_Sample = [], profile_Mapping = [],
      profile_Location = [], locationIndex = 0, startTS = 0, endTS = 0\<rparr>"

text \<open>
  The local variables of \<^verbatim>\<open>getProfile\<close> when it returns: the indices of the four
  strings of the sample type and the period type, the encoder's variables, the function
  table, the string table, and the reporter. The division for \<^verbatim>\<open>Period\<close> panics if the
  configured frequency is zero.
\<close>

definition getProfile_vars ::
  "world \<Rightarrow> OTLPReporter
     \<Rightarrow> panic + (nat \<times> nat \<times> nat \<times> nat) \<times> encoder \<times> Function option list \<times> string list
                 \<times> OTLPReporter" where
  "getProfile_vars W r =
     (case drainAndReturn W r of
        (samplesCpy, r') \<Rightarrow>
          (case stringIndex ''samples'' newEncoder of
             (i1, e1) \<Rightarrow>
               (case stringIndex ''count'' e1 of
                  (i2, e2) \<Rightarrow>
                    (case stringIndex ''cpu'' e2 of
                       (i3, e3) \<Rightarrow>
                         (case stringIndex ''nanoseconds'' e3 of
                            (i4, e4) \<Rightarrow>
     if SamplesPerSecond W = 0 then Inl DivideByZero
     else
       (case encodeSamples W r' (rangeMap (range_samplesCpy_second W) samplesCpy) e4 of
          Inl p \<Rightarrow> Inl p
        | Inr e5 \<Rightarrow>
            (case fillFuncTable (rangeMap (range_funcMap W) (funcMap e5))
                    (replicate (length (funcMap e5)) None, e5) of
               Inl p \<Rightarrow> Inl p
             | Inr (funcTable, e6) \<Rightarrow>
                 (case fillStringTable (rangeMap (range_stringMap W) (stringMap e6))
                         (replicate (length (stringMap e6)) []) of
                    Inl p \<Rightarrow> Inl p
                  | Inr stringTable \<Rightarrow>
                      Inr ((i1, i2, i3, i4), e6, funcTable, stringTable, r')))))))))"

text \<open>\<^verbatim>\<open>getProfile\<close>: the profile, the start and the end time stamp, and the reporter.\<close>

definition getProfile ::
  "world \<Rightarrow> OTLPReporter \<Rightarrow> panic + Profile \<times> 64 word \<times> 64 word \<times> OTLPReporter" where
  "getProfile W r =
     (case getProfile_vars W r of
        Inl p \<Rightarrow> Inl p
      | Inr ((i1, i2, i3, i4), e, funcTable, stringTable, r') \<Rightarrow>
          Inr (\<lparr>SampleType = [\<lparr>Type = i1, Unit = i2\<rparr>],
                Sample = profile_Sample e,
                Mapping = profile_Mapping e,
                Location = profile_Location e,
                LocationIndices = [0..<length (profile_Location e)],
                Function = funcTable,
                StringTable = stringTable,
                PeriodType = \<lparr>Type = i3, Unit = i4\<rparr>,
                Period = 1000000000 div int (SamplesPerSecond W),
                DurationNanos = UnixNano (endTS e) - UnixNano (startTS e),
                TimeNanos = UnixNano (startTS e)\<rparr>,
               startTS e, endTS e, r'))"

subsection \<open>\<^verbatim>\<open>getResource\<close> and \<^verbatim>\<open>reportOTLPProfile\<close>\<close>

text \<open>
  The attributes of the resource, a slice of pointers to key-value pairs (nil is
  \<open>None\<close>): one slot for every key of the host metadata and one more. The index \<open>i\<close>
  counts the keys that \<^verbatim>\<open>Get\<close> has found, so it stays below the length.
\<close>

fun fillAttributes ::
  "string list \<Rightarrow> (string, string) lru \<Rightarrow> (string \<times> string) option list \<times> nat
     \<Rightarrow> (string \<times> string) option list \<times> nat" where
  "fillAttributes [] c (attributes, i) = (attributes, i)"
| "fillAttributes (k # ks) c (attributes, i) =
     (case lru_Get c k of
        None \<Rightarrow> fillAttributes ks c (attributes, i)
      | Some v \<Rightarrow> fillAttributes ks c (attributes[i := Some (k, v)], Suc i))"

definition getResource :: "OTLPReporter \<Rightarrow> (string \<times> string) option list" where
  "getResource r =
     (let keys = lru_Keys (hostmetadata r)
      in case fillAttributes keys (hostmetadata r) (replicate (length keys + 1) None, 0) of
           (attributes, i) \<Rightarrow>
             attributes[i := Some (''__name__'', ''otel_profiling_agent_on_cpu'')])"

text \<open>
  The request of \<^verbatim>\<open>reportOTLPProfile\<close>. Its nesting (one resource, one scope, one
  profile container) is flattened into one record.
\<close>

record ExportProfilesServiceRequest =
  ResourceAttributes :: "(string \<times> string) option list"
  ScopeName :: string
  ScopeVersion :: string
  ProfileId :: string
  StartTimeUnixNano :: "64 word"
  EndTimeUnixNano :: "64 word"
  Profile :: Profile

text \<open>
  \<^verbatim>\<open>reportOTLPProfile\<close>: the error it returns (or nil), the requests passed to
  \<^verbatim>\<open>client.Export\<close>, and the reporter. \<open>export\<close> is the error that the export call
  would return; \<open>reportInterval\<close> is the interval in nanoseconds.
\<close>

definition reportOTLPProfile ::
  "world \<Rightarrow> error option \<Rightarrow> OTLPReporter \<Rightarrow> 64 word
     \<Rightarrow> panic + error option \<times> ExportProfilesServiceRequest list \<times> OTLPReporter" where
  "reportOTLPProfile W export r reportInterval =
     (case getProfile W r of
        Inl p \<Rightarrow> Inl p
      | Inr (profile, startTS', endTS', r') \<Rightarrow>
          if length (Sample profile) = 0 then Inr (None, [], r')
          else
            (let profile' = (if DurationNanos profile = 0
                             then profile\<lparr>DurationNanos := reportInterval\<rparr> else profile);
                 req = \<lparr>ResourceAttributes = getResource r',
                        ScopeName = ''Elastic-Universal-Profiling'',
                        ScopeVersion = Version W @ ''@'' @ Revision W,
                        ProfileId = ''ELASTIC'',
                        StartTimeUnixNano = UnixNano startTS',
                        EndTimeUnixNano = UnixNano endTS',
                        Profile = profile'\<rparr>
             in Inr (export, [req], r')))"

subsection \<open>A concrete run\<close>

text \<open>
  A world for concrete runs, and the reporter after one trace with a native frame (file
  ID 7, address 4096) was reported and counted once (time stamp 1000, count 3, comm
  "app"), with no executable metadata.
\<close>

definition exampleWorld :: world where
  "exampleWorld =
     \<lparr>TraceHash_StringNoQuotes = (\<lambda>h. replicate h CHR ''t''),
      FileID_StringNoQuotes = (\<lambda>f. replicate f CHR ''f''),
      FrameType_String =
        (\<lambda>t. case t of
                NativeFrame \<Rightarrow> ''native'' | KernelFrame \<Rightarrow> ''kernel''
              | AbortFrame \<Rightarrow> ''abort-marker'' | InterpretedFrame n \<Rightarrow> ''interpreted''),
      SamplesPerSecond = 20, Version = ''v'', Revision = ''r'',
      range_samplesCpy_first = [], range_samplesCpy_second = [],
      range_funcMap = [], range_stringMap = []\<rparr>"

definition exampleReporter :: OTLPReporter where
  "exampleReporter =
     ReportCountForTrace
       (ReportFramesForTrace (emptyReporter ''linker'')
          \<lparr>Files = [7], Linenos = [4096], FrameTypes = [NativeFrame], Hash = 1\<rparr>)
       1 1000 3 ''app'' [] [] []"

text \<open>
  The example reporter with a second counter, for trace hash 2, whose trace information
  is missing (as after an eviction from the traces cache).
\<close>

definition requeueReporter :: OTLPReporter where
  "requeueReporter =
     exampleReporter\<lparr>samples := lru_Add (samples exampleReporter) 2
                                    \<lparr>timestamps = [1001], count = 5\<rparr>\<rparr>"

text \<open>
  A reporter in mode "hash" after one trace of three kernel frames, the first and the
  third with the same frame ID, for which a fallback symbol was reported.
\<close>

definition kernelReporter :: OTLPReporter where
  "kernelReporter =
     ReportFallbackSymbol
       (ReportCountForTrace
          (ReportFramesForTrace (emptyReporter ''hash'')
             \<lparr>Files = [9, 9, 9], Linenos = [16, 32, 16],
              FrameTypes = [KernelFrame, KernelFrame, KernelFrame], Hash = 3\<rparr>)
          3 1000 1 ''kworker'' [] [] [])
       (NewFrameID 9 16) ''do_syscall_64''"


subsection \<open>Invariants of the tables\<close>

text \<open>
  A well-formed string map has one entry for a string, and its entry number \<open>i\<close> has the
  index \<open>i mod 2\<^sup>3\<^sup>2\<close>; a well-formed function map has one entry for a function, and
  its entry number \<open>i\<close> has the index \<open>i\<close>. \<open>tablesGrow e e'\<close>: the two maps of
  \<open>e'\<close> are those of \<open>e\<close> with entries appended, and are well-formed if those of
  \<open>e\<close> are. \<open>functionOf sm v\<close> is the entry of the function table for the function
  \<open>v\<close>, with the indices of the string map \<open>sm\<close>.
\<close>

definition smOK :: "(string \<times> nat) list \<Rightarrow> bool" where
  "smOK sm \<longleftrightarrow>
     distinct (map fst sm) \<and> map snd sm = map (\<lambda>i. i mod 2 ^ 32) [0..<length sm]"

definition fmOK :: "(funcInfo \<times> nat) list \<Rightarrow> bool" where
  "fmOK fm \<longleftrightarrow> distinct (map fst fm) \<and> map snd fm = [0..<length fm]"

definition tablesGrow :: "encoder \<Rightarrow> encoder \<Rightarrow> bool" where
  "tablesGrow e e' \<longleftrightarrow>
     (\<exists>a. stringMap e' = stringMap e @ a) \<and> (\<exists>b. funcMap e' = funcMap e @ b)
     \<and> (smOK (stringMap e) \<longrightarrow> smOK (stringMap e'))
     \<and> (fmOK (funcMap e) \<longrightarrow> fmOK (funcMap e'))"

definition functionOf :: "(string \<times> nat) list \<Rightarrow> funcInfo \<Rightarrow> Function" where
  "functionOf sm v =
     \<lparr>Name = the (map_of sm (name v)), FunctionFilename = the (map_of sm (funcFileName v))\<rparr>"

subsection \<open>A reporter with many traces\<close>

text \<open>
  The reporter after \<open>2\<^sup>3\<^sup>2 - 4\<close> traces, with the hashes from 1 on, were counted once
  each with no labels and their frames were never reported; \<open>bigStringMap\<close> is the
  string map after the four fixed strings and the hash strings of these traces were
  added one by one.
\<close>

definition bigCount :: nat where
  "bigCount = 2 ^ 32 - 4"

definition bigHashes :: "TraceHash list" where
  "bigHashes = [1..<Suc bigCount]"

definition bigReporter :: OTLPReporter where
  "bigReporter =
     (emptyReporter ''linker'')
       \<lparr>traces := map (\<lambda>h. (h, zeroTraceInfo)) bigHashes,
        samples := map (\<lambda>h. (h, \<lparr>timestamps = [1], count = 1\<rparr>)) bigHashes\<rparr>"

definition bigStringMap :: "(string \<times> nat) list" where
  "bigStringMap =
     foldl (\<lambda>sm h. snd (getStringMapIndex sm (replicate h CHR ''t'')))
       [([], 0), (''samples'', 1), (''count'', 2), (''cpu'', 3), (''nanoseconds'', 4)]
       bigHashes"

subsection \<open>The encoded frames\<close>

text \<open>
  The frames of a trace as the loop over \<open>frameTypes\<close> reads them, and the frames of
  all traces that \<open>getProfile\<close> encodes, in the order of encoding.
  \<open>kernelFunction\<close> is the key of the function table that the kernel branch asks
  for, and \<open>locsOK r fs e\<close> relates the frames \<open>fs\<close> encoded so far to the encoder:
  there is one location for a frame, and the line of a kernel frame refers to the entry
  of its kernel function.
\<close>

definition traceFrames :: "traceInfo \<Rightarrow> (FrameType \<times> FileID \<times> AddressOrLineno) list" where
  "traceFrames t =
     map (\<lambda>i. (frameTypes t ! i, files t ! i, linenos t ! i)) [0..<length (frameTypes t)]"

definition emittedFrames ::
  "world \<Rightarrow> OTLPReporter \<Rightarrow> (FrameType \<times> FileID \<times> AddressOrLineno) list" where
  "emittedFrames W r =
     concat (map (\<lambda>entry. traceFrames (case lru_Get (traces r) (fst entry) of
                                            Some t \<Rightarrow> t | None \<Rightarrow> zeroTraceInfo))
               (rangeMap (range_samplesCpy_second W) (fst (drainAndReturn W r))))"

definition kernelFunction :: "OTLPReporter \<Rightarrow> FrameID \<Rightarrow> funcInfo" where
  "kernelFunction r frameID =
     \<lparr>name = (case lru_Get (fallbackSymbols r) frameID of
                Some symbol \<Rightarrow> symbol | None \<Rightarrow> ''UNKNOWN''),
      funcFileName = ''vmlinux''\<rparr>"

definition locsOK ::
  "OTLPReporter \<Rightarrow> (FrameType \<times> FileID \<times> AddressOrLineno) list \<Rightarrow> encoder \<Rightarrow> bool" where
  "locsOK r fs e \<longleftrightarrow>
     frameIDtoFunction e = Map.empty
     \<and> length (profile_Location e) = length fs
     \<and> (\<forall>k < length fs. \<forall>f a. fs ! k = (KernelFrame, f, a) \<longrightarrow>
           (\<exists>n. map_of (funcMap e) (kernelFunction r (NewFrameID f a)) = Some n
                \<and> Lines (profile_Location e ! k) = [\<lparr>FunctionIndex = Suc n, Line = 0\<rparr>]))"




section \<open>The symbol uploader\<close>

subsection \<open>Caches with a lifetime\<close>

text \<open>
  The uploader's caches are of the same library type; its retry cache holds entries with
  a lifetime. An entry carries its expiry time in nanoseconds, 0 for none, as the library
  stores it; a lookup at time \<open>now\<close> treats an entry whose expiry time has been reached
  as absent and drops it.
\<close>

type_synonym ('k, 'v) lruT = "('k \<times> 'v \<times> nat) list"

definition lruT_Get :: "nat \<Rightarrow> ('k, 'v) lruT \<Rightarrow> 'k \<Rightarrow> 'v option \<times> ('k, 'v) lruT" where
  "lruT_Get now c k =
     (case map_of c k of
        None \<Rightarrow> (None, c)
      | Some (v, e) \<Rightarrow>
          if e \<noteq> 0 \<and> e \<le> now then (None, AList.delete k c) else (Some v, c))"

definition lruT_AddWithLifetime ::
  "nat \<Rightarrow> ('k, 'v) lruT \<Rightarrow> 'k \<Rightarrow> 'v \<Rightarrow> nat \<Rightarrow> ('k, 'v) lruT" where
  "lruT_AddWithLifetime now c k v lifetime =
     AList.update k (v, if lifetime = 0 then 0 else now + lifetime) c"

definition lruT_Add :: "('k, 'v) lruT \<Rightarrow> 'k \<Rightarrow> 'v \<Rightarrow> ('k, 'v) lruT" where
  "lruT_Add c k v = AList.update k (v, 0) c"

definition Minute :: nat where
  "Minute = 60 * 1000000000"

subsection \<open>The uploader and its environment\<close>

record ParcaSymbolUploader =
  retry :: "(FileID, bool) lruT"
  singleflight :: "(FileID, bool) lruT"
  keepTextSection :: bool

definition ReasonUploadInProgress :: string where
  "ReasonUploadInProgress =
     ''A previous upload is still in-progress and not stale yet (only stale uploads can be retried).''"

datatype UploadStrategy =
    UPLOAD_STRATEGY_UNSPECIFIED
  | UPLOAD_STRATEGY_GRPC
  | UPLOAD_STRATEGY_SIGNED_URL

record UploadInstructions =
  UploadStrategy :: UploadStrategy
  SignedUrl :: string
  UploadId :: string

text \<open>The file behind the handle \<^verbatim>\<open>f\<close>: the original at \<^verbatim>\<open>path\<close>, or the extracted
  file of the file ID in the cache directory.\<close>

datatype fileRef = OriginalFile string | CachedFile FileID

datatype fsResult = FsOk | FsNotExist | FsErr error

text \<open>
  What the attempt meets: the answers of the remote store, of the file system, of the
  debug-info extraction and of the HTTP transport, one field for each call site.
\<close>

record uploadEnv =
  respShouldInitiateUpload :: "error + (bool \<times> string)"
  openPath :: fsResult
  statPath :: "error + int"
  statCachedFile :: fsResult
  openCachedFile :: "error option"
  fstatCachedFile :: "error + int"
  createCachedFile :: "error option"
  onlyKeepDebug :: "error option"
  seekStart :: "error option"
  statExtracted :: "error + int"
  respInitiateUpload :: "error + UploadInstructions option"
  newRequest :: "error option"
  httpDo :: "error + (int \<times> string)"
  respMarkUploadFinished :: "error option"

text \<open>The calls that leave the process or change the disk, in the order they are made.\<close>

datatype call =
    ShouldInitiateUpload string
  | InitiateUpload string FileID int
  | HttpPut string int
  | MarkUploadFinished string string
  | OsRemove fileRef

text \<open>How a Go function ends: it returns an error or nil, or it panics.\<close>

datatype outcome = Returned "error option" | Panicked

subsection \<open>\<^verbatim>\<open>uploadViaSignedURL\<close>\<close>

definition uploadViaSignedURL :: "uploadEnv \<Rightarrow> string \<Rightarrow> int \<Rightarrow> error option \<times> call list" where
  "uploadViaSignedURL env url size' =
     (case newRequest env of
        Some e \<Rightarrow> (Some (Wrap ''create request'' e), [])
      | None \<Rightarrow>
          (case httpDo env of
             Inl e \<Rightarrow> (Some (Wrap ''do upload request'' e), [HttpPut url size'])
           | Inr (statusCode, body) \<Rightarrow>
               if statusCode div 100 \<noteq> 2
               then (Some (UnexpectedStatus statusCode body), [HttpPut url size'])
               else (None, [HttpPut url size'])))"

subsection \<open>\<^verbatim>\<open>attemptUpload\<close>\<close>

text \<open>
  The second step of \<^verbatim>\<open>attemptUpload\<close>, the file to upload and its size: either the
  attempt ends here (\<open>Inl\<close>: how, the calls made, the uploader), or it goes on with the
  file and its size. Where \<^verbatim>\<open>os.Create\<close> fails, \<^verbatim>\<open>f\<close> is nil and \<^verbatim>\<open>f.Name()\<close> panics.
\<close>

definition materialize ::
  "nat \<Rightarrow> uploadEnv \<Rightarrow> ParcaSymbolUploader \<Rightarrow> FileID \<Rightarrow> string
     \<Rightarrow> (outcome \<times> call list \<times> ParcaSymbolUploader) + (fileRef \<times> int)" where
  "materialize now env u fileID path =
     (if keepTextSection u then
        (case openPath env of
           FsNotExist \<Rightarrow> Inl (Returned None, [], u)
         | FsErr e \<Rightarrow> Inl (Returned (Some (Wrap ''open file'' e)), [], u)
         | FsOk \<Rightarrow>
             (case statPath env of
                Inl e \<Rightarrow> Inl (Returned (Some (Wrap ''stat file to upload'' e)), [], u)
              | Inr size' \<Rightarrow>
                  if size' = 0
                  then Inl (Returned None, [], u\<lparr>retry := lruT_Add (retry u) fileID False\<rparr>)
                  else Inr (OriginalFile path, size')))
      else
        (case statCachedFile env of
           FsOk \<Rightarrow>
             (case openCachedFile env of
                Some e \<Rightarrow> Inl (Returned (Some (Wrap ''open cached file'' e)), [], u)
              | None \<Rightarrow>
                  (case fstatCachedFile env of
                     Inl e \<Rightarrow> Inl (Returned (Some (Wrap ''stat file to upload'' e)), [], u)
                   | Inr size' \<Rightarrow>
                       if size' = 0
                       then Inl (Returned None, [OsRemove (CachedFile fileID)], u)
                       else Inr (CachedFile fileID, size')))
         | FsNotExist \<Rightarrow>
             (case createCachedFile env of
                Some e \<Rightarrow> Inl (Panicked, [], u)
              | None \<Rightarrow>
                  (case openPath env of
                     FsNotExist \<Rightarrow> Inl (Returned None, [OsRemove (CachedFile fileID)], u)
                   | FsErr e \<Rightarrow>
                       Inl (Returned (Some (Wrap ''open original file'' e)),
                            [OsRemove (CachedFile fileID)], u)
                   | FsOk \<Rightarrow>
                       (case onlyKeepDebug env of
                          Some e \<Rightarrow>
                            Inl (Returned (Some (Wrap ''extract debuginfo'' e)),
                                 [OsRemove (CachedFile fileID)], u)
                        | None \<Rightarrow>
                            (case seekStart env of
                               Some e \<Rightarrow>
                                 Inl (Returned
                                        (Some (Wrap ''seek extracted debuginfo to start'' e)),
                                      [OsRemove (CachedFile fileID)], u)
                             | None \<Rightarrow>
                                 (case statExtracted env of
                                    Inl e \<Rightarrow>
                                      Inl (Returned (Some (Wrap ''stat file to upload'' e)),
                                           [OsRemove (CachedFile fileID)], u)
                                  | Inr size' \<Rightarrow>
                                      if size' = 0
                                      then Inl (Returned None, [OsRemove (CachedFile fileID)],
                                                u\<lparr>retry := lruT_AddWithLifetime now (retry u)
                                                               fileID False (5 * Minute)\<rparr>)
                                      else Inr (CachedFile fileID, size'))))))
         | FsErr e \<Rightarrow> Inl (Returned (Some (Wrap ''stat cached file file'' e)), [], u)))"

text \<open>The third step: initiate, transfer, mark as finished.\<close>

definition transfer ::
  "uploadEnv \<Rightarrow> ParcaSymbolUploader \<Rightarrow> FileID \<Rightarrow> string \<Rightarrow> fileRef \<Rightarrow> int
     \<Rightarrow> outcome \<times> call list \<times> ParcaSymbolUploader" where
  "transfer env u fileID buildID' f size' =
     (case respInitiateUpload env of
        Inl e \<Rightarrow> (Returned (Some e), [InitiateUpload buildID' fileID size'], u)
      | Inr None \<Rightarrow>
          (Returned None, [InitiateUpload buildID' fileID size'],
           u\<lparr>retry := lruT_Add (retry u) fileID False\<rparr>)
      | Inr (Some instructions) \<Rightarrow>
          if UploadStrategy instructions \<noteq> UPLOAD_STRATEGY_SIGNED_URL
          then (Returned None, [InitiateUpload buildID' fileID size'],
                u\<lparr>retry := lruT_Add (retry u) fileID False\<rparr>)
          else
            (case uploadViaSignedURL env (SignedUrl instructions) size' of
               (Some e, cs) \<Rightarrow> (Returned (Some e), InitiateUpload buildID' fileID size' # cs, u)
             | (None, cs) \<Rightarrow>
                 (case respMarkUploadFinished env of
                    Some e \<Rightarrow>
                      (Returned (Some e),
                       InitiateUpload buildID' fileID size' # cs
                         @ [MarkUploadFinished buildID' (UploadId instructions)], u)
                  | None \<Rightarrow>
                      (Returned None,
                       InitiateUpload buildID' fileID size' # cs
                         @ [MarkUploadFinished buildID' (UploadId instructions), OsRemove f],
                       u\<lparr>retry := lruT_Add (retry u) fileID False\<rparr>))))"

text \<open>
  \<^verbatim>\<open>attemptUpload\<close> at time \<open>now\<close>. The deferred \<^verbatim>\<open>u.singleflight.Add(fileID, false)\<close> runs
  on every way out, a panic included.
\<close>

definition attemptUpload ::
  "nat \<Rightarrow> uploadEnv \<Rightarrow> ParcaSymbolUploader \<Rightarrow> FileID \<Rightarrow> string \<Rightarrow> string
     \<Rightarrow> outcome \<times> call list \<times> ParcaSymbolUploader" where
  "attemptUpload now env u fileID path buildID' =
     (let (out, cs, u') =
        (case respShouldInitiateUpload env of
           Inl e \<Rightarrow> (Returned (Some e), [ShouldInitiateUpload buildID'], u)
         | Inr (shouldInitiateUpload, reason) \<Rightarrow>
             if \<not> shouldInitiateUpload then
               (if reason = ReasonUploadInProgress
                then (Returned None, [ShouldInitiateUpload buildID'],
                      u\<lparr>retry := lruT_AddWithLifetime now (retry u) fileID False (5 * Minute)\<rparr>)
                else (Returned None, [ShouldInitiateUpload buildID'],
                      u\<lparr>retry := lruT_Add (retry u) fileID False\<rparr>))
             else
               (case materialize now env u fileID path of
                  Inl (out, cs, u') \<Rightarrow> (out, ShouldInitiateUpload buildID' # cs, u')
                | Inr (f, size') \<Rightarrow>
                    (case transfer env u fileID buildID' f size' of
                       (out, cs, u') \<Rightarrow> (out, ShouldInitiateUpload buildID' # cs, u'))))
      in (out, cs, u'\<lparr>singleflight := lruT_Add (singleflight u') fileID False\<rparr>))"

subsection \<open>\<^verbatim>\<open>Upload\<close>\<close>

text \<open>
  \<^verbatim>\<open>Upload\<close> at time \<open>now\<close>, up to the \<^verbatim>\<open>go\<close> statement: whether the goroutine is
  started, and the uploader. \<^verbatim>\<open>Get\<close> returns the value and \<^verbatim>\<open>ok\<close>; where it finds no
  entry, the value is false. So \<^verbatim>\<open>ok\<close> is \<open>retry' \<noteq> None\<close> and Go's \<^verbatim>\<open>retry\<close> is
  \<open>retry' = Some True\<close>, and likewise for \<^verbatim>\<open>singleflight\<close>.
\<close>

definition Upload_start ::
  "nat \<Rightarrow> ParcaSymbolUploader \<Rightarrow> FileID \<Rightarrow> string \<Rightarrow> bool \<times> ParcaSymbolUploader" where
  "Upload_start now u fileID buildID' =
     (if buildID' = [] then (False, u)
      else
        (case lruT_Get now (retry u) fileID of
           (retry', c1) \<Rightarrow>
             if retry' \<noteq> None \<and> retry' \<noteq> Some True then (False, u\<lparr>retry := c1\<rparr>)
             else
               (case lruT_Get now (singleflight u) fileID of
                  (singleflight', c2) \<Rightarrow>
                    if singleflight' \<noteq> None \<or> singleflight' = Some True
                    then (False, u\<lparr>retry := c1, singleflight := c2\<rparr>)
                    else (True, u\<lparr>retry := c1, singleflight := lruT_Add c2 fileID True\<rparr>))))"

text \<open>
  The goroutine of \<^verbatim>\<open>Upload\<close>, run at time \<open>now\<close>: \<^verbatim>\<open>attemptUpload\<close>, then the
  goroutine's own deferred \<^verbatim>\<open>u.singleflight.Add(fileID, false)\<close>.
\<close>

definition Upload_goroutine ::
  "nat \<Rightarrow> uploadEnv \<Rightarrow> ParcaSymbolUploader \<Rightarrow> FileID \<Rightarrow> string \<Rightarrow> string
     \<Rightarrow> outcome \<times> call list \<times> ParcaSymbolUploader" where
  "Upload_goroutine now env u fileID path buildID' =
     (case attemptUpload now env u fileID path buildID' of
        (out, cs, u') \<Rightarrow>
          (out, cs, u'\<lparr>singleflight := lruT_Add (singleflight u') fileID False\<rparr>))"

text \<open>
  An \<^verbatim>\<open>Upload\<close> call whose goroutine, if one is started, runs to its end before anything
  else happens: the calls made and the uploader afterwards.
\<close>

definition Upload ::
  "nat \<Rightarrow> uploadEnv \<Rightarrow> ParcaSymbolUploader \<Rightarrow> FileID \<Rightarrow> string \<Rightarrow> string
     \<Rightarrow> call list \<times> ParcaSymbolUploader" where
  "Upload now env u fileID path buildID' =
     (case Upload_start now u fileID buildID' of
        (started, u') \<Rightarrow>
          if started
          then (case Upload_goroutine now env u' fileID path buildID' of
                  (out, cs, u'') \<Rightarrow> (cs, u''))
          else ([], u'))"

text \<open>An uploader with empty caches, as \<^verbatim>\<open>NewParcaSymbolUploader\<close> creates it.\<close>

definition emptyUploader :: "bool \<Rightarrow> ParcaSymbolUploader" where
  "emptyUploader keep = \<lparr>retry = [], singleflight = [], keepTextSection = keep\<rparr>"

text \<open>
  Environments for concrete runs: the remote store denies the upload with the given
  reason; the authorize call fails; the remote store allows the upload (and then returns
  no upload instructions).
\<close>

definition envDenied :: "string \<Rightarrow> uploadEnv" where
  "envDenied reason =
     \<lparr>respShouldInitiateUpload = Inr (False, reason),
      openPath = FsOk, statPath = Inr 1, statCachedFile = FsNotExist,
      openCachedFile = None, fstatCachedFile = Inr 1, createCachedFile = None,
      onlyKeepDebug = None, seekStart = None, statExtracted = Inr 1,
      respInitiateUpload = Inr None, newRequest = None, httpDo = Inr (200, []),
      respMarkUploadFinished = None\<rparr>"

definition envTransportError :: uploadEnv where
  "envTransportError = (envDenied [])\<lparr>respShouldInitiateUpload := Inl (Err ''unavailable'')\<rparr>"

definition envAllowed :: uploadEnv where
  "envAllowed = (envDenied [])\<lparr>respShouldInitiateUpload := Inr (True, [])\<rparr>"

section \<open>Properties of the ingestion calls\<close>

lemma lru_Peek_Add: "lru_Peek (lru_Add c k v) k' = (if k' = k then Some v else lru_Peek c k')"
  by (simp add: lru_Peek_def lru_Add_def update_conv')

lemma lru_Get_Add: "lru_Get (lru_Add c k v) k' = (if k' = k then Some v else lru_Get c k')"
  by (simp add: lru_Get_def lru_Add_def update_conv')

text \<open>
  Claim C4. For every reporter state and every trace hash, \<open>ReportFramesForTrace\<close>
  followed by \<open>ReportCountForTrace\<close> and the two calls in the opposite order store the
  same trace information for the hash: the files, line numbers and frame types of the
  frames call together with the comm, pod name, pod namespace and container name of the
  count call (the service name, which neither call sets, is the one stored before, or
  empty).
\<close>

theorem report_frames_count_commute:
  "lru_Peek (traces (ReportCountForTrace (ReportFramesForTrace r t) (Hash t) ts n c p ns cn))
       (Hash t)
     = lru_Peek (traces (ReportFramesForTrace (ReportCountForTrace r (Hash t) ts n c p ns cn) t))
       (Hash t)
   \<and> lru_Peek (traces (ReportFramesForTrace (ReportCountForTrace r (Hash t) ts n c p ns cn) t))
       (Hash t)
     = Some \<lparr>files = Files t, linenos = Linenos t, frameTypes = FrameTypes t,
             comm = c, podName = p, podNamespace = ns, containerName = cn,
             apmServiceName =
               (case lru_Peek (traces r) (Hash t) of
                  None \<Rightarrow> [] | Some v \<Rightarrow> apmServiceName v)\<rparr>"
  by (cases "lru_Peek (traces r) (Hash t)")
     (simp_all add: ReportCountForTrace_def ReportFramesForTrace_def Let_def lru_Peek_Add
        split: option.splits)

text \<open>
  The file path stored for a file ID and an address after \<open>FrameMetadata\<close>: an empty
  incoming path keeps the stored one.
\<close>

lemma frames_ReportFramesForTrace: "frames (ReportFramesForTrace r t) = frames r"
  by (simp add: ReportFramesForTrace_def split: option.splits)

lemma frames_ReportCountForTrace: "frames (ReportCountForTrace r h ts n c p ns cn) = frames r"
  by (simp add: ReportCountForTrace_def Let_def split: option.splits)

lemma frames_ReportFallbackSymbol: "frames (ReportFallbackSymbol r i s) = frames r"
  by (simp add: ReportFallbackSymbol_def split: option.splits)

lemma frames_ReportHostMetadata: "frames (ReportHostMetadata r m) = frames r"
  by (simp add: ReportHostMetadata_def addHostmetadata_def)

lemma storedFilePath_FrameMetadata:
  "storedFilePath (FrameMetadata r f' a' l off fn fp) f a =
     (if f' = f \<and> a' = a
      then (if fp = [] then (case storedFilePath r f a of None \<Rightarrow> Some [] | Some p \<Rightarrow> Some p)
            else Some fp)
      else storedFilePath r f a)"
  by (auto simp add: storedFilePath_def FrameMetadata_def Let_def lru_Get_Add
      split: option.splits)

lemma storedFilePath_ingest:
  assumes "storedFilePath r f a = Some p" and "p \<noteq> []"
  shows "\<exists>p'. storedFilePath (ingest r c) f a = Some p' \<and> p' \<noteq> []"
proof (cases c)
  case (CallFrameMetadata f' a' l off fn fp)
  with assms show ?thesis by (simp add: storedFilePath_FrameMetadata)
qed (insert assms, simp_all add: storedFilePath_def frames_ReportFramesForTrace
        frames_ReportCountForTrace frames_ReportFallbackSymbol frames_ReportHostMetadata)

lemma storedFilePath_run:
  assumes "storedFilePath r f a = Some p" and "p \<noteq> []"
  shows "\<exists>p'. storedFilePath (foldl ingest r cs) f a = Some p' \<and> p' \<noteq> []"
  using assms
proof (induction cs arbitrary: r p)
  case Nil
  then show ?case by simp
next
  case (Cons c cs)
  from storedFilePath_ingest [OF Cons.prems]
  obtain q where "storedFilePath (ingest r c) f a = Some q" "q \<noteq> []" by blast
  from Cons.IH [OF this] show ?case by simp
qed

text \<open>
  Claim C8. Once a non-empty file path is stored for a file ID and an address, then after
  any further sequence of ingestion calls the stored path is still non-empty, and a
  \<open>FrameMetadata\<close> call for the same file ID and address with an empty incoming path
  leaves the stored path as it is.
\<close>

theorem frame_metadata_keeps_file_path:
  assumes "storedFilePath r f a = Some p" and "p \<noteq> []"
  shows "\<exists>p'. storedFilePath (foldl ingest r cs) f a = Some p' \<and> p' \<noteq> [] \<and>
           storedFilePath (FrameMetadata (foldl ingest r cs) f a l off fn []) f a = Some p'"
proof -
  from storedFilePath_run [OF assms]
  obtain p' where "storedFilePath (foldl ingest r cs) f a = Some p'" "p' \<noteq> []" by blast
  then show ?thesis by (simp add: storedFilePath_FrameMetadata)
qed

theorem frame_metadata_keeps_file_path_witness:
  "storedFilePath (FrameMetadata (emptyReporter ''linker'') 1 2 3 4 ''f'' ''a.py'') 1 2
     = Some ''a.py''
   \<and> ''a.py'' \<noteq> []
   \<and> storedFilePath
       (FrameMetadata
          (foldl ingest (FrameMetadata (emptyReporter ''linker'') 1 2 3 4 ''f'' ''a.py'')
             [CallFrameMetadata 1 2 5 6 ''g'' [], CallFrameMetadata 1 9 5 6 ''h'' []])
          1 2 7 8 ''k'' []) 1 2
     = Some ''a.py''"
proof -
  have h: "storedFilePath (FrameMetadata (emptyReporter ''linker'') 1 2 3 4 ''f'' ''a.py'') 1 2
             = Some ''a.py''"
    by (simp add: storedFilePath_def FrameMetadata_def emptyReporter_def lru_Get_def lru_Add_def)
  have n: "''a.py'' \<noteq> []" by simp
  from frame_metadata_keeps_file_path [OF h n,
      where cs = "[CallFrameMetadata 1 2 5 6 ''g'' [], CallFrameMetadata 1 9 5 6 ''h'' []]"
        and l = 7 and off = 8 and fn = "''k''"]
  show ?thesis
    by (simp add: h storedFilePath_FrameMetadata)
qed

section \<open>Properties of the symbol uploader\<close>

text \<open>
  Claim C7. When the authorize step denies the upload, \<open>attemptUpload\<close> returns nil
  and has made the authorize call only. If the reason is the "upload in progress" reason,
  the retry cache holds for the file ID an entry with value false that expires five
  minutes after the attempt: a lookup before that finds false, a lookup from then on finds
  nothing. For every other reason the entry has no expiry: a lookup finds false at every
  time.
\<close>

theorem attemptUpload_denied:
  assumes "respShouldInitiateUpload env = Inr (False, reason)"
  shows "case attemptUpload now env u f path b of
           (out, cs, u') \<Rightarrow>
             out = Returned None \<and> cs = [ShouldInitiateUpload b] \<and>
             (if reason = ReasonUploadInProgress
              then map_of (retry u') f = Some (False, now + 5 * Minute) \<and>
                   (\<forall>t. fst (lruT_Get t (retry u') f)
                          = (if t < now + 5 * Minute then Some False else None))
              else map_of (retry u') f = Some (False, 0) \<and>
                   (\<forall>t. fst (lruT_Get t (retry u') f) = Some False))"
  using assms
  by (simp add: attemptUpload_def lruT_Get_def lruT_AddWithLifetime_def lruT_Add_def
      update_conv' Minute_def)

theorem attemptUpload_denied_witness:
  "respShouldInitiateUpload (envDenied ReasonUploadInProgress) = Inr (False, ReasonUploadInProgress)
   \<and> fst (attemptUpload 7 (envDenied ReasonUploadInProgress) (emptyUploader False) 1
            ''/bin/x'' ''b'')
       = Returned None
   \<and> fst (snd (attemptUpload 7 (envDenied ReasonUploadInProgress) (emptyUploader False) 1
                 ''/bin/x'' ''b''))
       = [ShouldInitiateUpload ''b'']
   \<and> map_of (retry (snd (snd (attemptUpload 7 (envDenied ReasonUploadInProgress)
                                 (emptyUploader False) 1 ''/bin/x'' ''b'')))) 1
       = Some (False, 7 + 5 * Minute)"
proof -
  have h: "respShouldInitiateUpload (envDenied ReasonUploadInProgress)
             = Inr (False, ReasonUploadInProgress)"
    by (simp add: envDenied_def)
  from attemptUpload_denied [OF h, where now = 7 and u = "emptyUploader False" and f = 1
      and path = "''/bin/x''" and b = "''b''"] h
  show ?thesis
    by (simp add: split_beta)
qed

text \<open>
  The in-flight marker after an attempt. Both deferred calls write the value false for
  the file ID; the entry stays in the cache, and \<open>Upload_start\<close> returns as soon as it
  finds an entry, whatever its value.
\<close>

lemma singleflight_attemptUpload:
  "map_of (singleflight (snd (snd (attemptUpload now env u f p b)))) f = Some (False, 0)"
  by (simp add: attemptUpload_def Let_def split_beta lruT_Add_def update_conv')

lemma singleflight_Upload_goroutine:
  "map_of (singleflight (snd (snd (Upload_goroutine now env u f p b)))) f = Some (False, 0)"
  by (simp add: Upload_goroutine_def split_beta lruT_Add_def update_conv')

lemma Upload_start_blocked:
  assumes "map_of (singleflight u) f = Some (v, 0)"
  shows "fst (Upload_start t u f b) = False"
  using assms by (simp add: Upload_start_def lruT_Get_def split_beta split: option.splits)

lemma Upload_blocked:
  assumes "map_of (singleflight u) f = Some (v, 0)"
  shows "fst (Upload t env u f p b) = []"
  using Upload_start_blocked [OF assms, of t b]
  by (cases "Upload_start t u f b") (simp add: Upload_def)

text \<open>
  Claim C2 fails on the code. After the goroutine of an \<open>Upload\<close> call for a file ID has
  ended, in whatever way, every later \<open>Upload\<close> call for that file ID makes no call at
  all, at every time and for every build ID: also when no retry entry was recorded, and
  also after a cooldown has expired.
\<close>

theorem Upload_after_attempt_is_noop:
  "fst (Upload t' env' (snd (snd (Upload_goroutine t env u f p b))) f p' b') = []"
  by (rule Upload_blocked [OF singleflight_Upload_goroutine])

text \<open>
  The run of the scenario: the first call, at time 0, is denied with the "upload in
  progress" reason; ten minutes later the cooldown entry has expired, nothing is in
  flight, the remote store would allow the upload, and the second call makes no call.
\<close>

theorem Upload_after_attempt_is_noop_witness:
  "fst (Upload_start 0 (emptyUploader False) 1 ''b'') = True
   \<and> fst (snd (Upload_goroutine 0 (envDenied ReasonUploadInProgress)
                 (snd (Upload_start 0 (emptyUploader False) 1 ''b'')) 1 ''/bin/x'' ''b''))
       = [ShouldInitiateUpload ''b'']
   \<and> fst (lruT_Get (10 * Minute)
            (retry (snd (snd (Upload_goroutine 0 (envDenied ReasonUploadInProgress)
                                (snd (Upload_start 0 (emptyUploader False) 1 ''b'')) 1
                                ''/bin/x'' ''b'')))) 1)
       = None
   \<and> fst (Upload (10 * Minute) envAllowed
            (snd (snd (Upload_goroutine 0 (envDenied ReasonUploadInProgress)
                         (snd (Upload_start 0 (emptyUploader False) 1 ''b'')) 1
                         ''/bin/x'' ''b''))) 1 ''/bin/x'' ''b'')
       = []
   \<and> fst (Upload (10 * Minute) envAllowed
            ((emptyUploader False)\<lparr>retry := [(1, False, 5 * Minute)]\<rparr>) 1 ''/bin/x'' ''b'')
       = [ShouldInitiateUpload ''b'', InitiateUpload ''b'' 1 1]"
proof -
  have s: "Upload_start 0 (emptyUploader False) 1 ''b''
             = (True, \<lparr>retry = [], singleflight = [(1, True, 0)], keepTextSection = False\<rparr>)"
    by (simp add: Upload_start_def emptyUploader_def lruT_Get_def lruT_Add_def)
  have g: "Upload_goroutine 0 (envDenied ReasonUploadInProgress)
             \<lparr>retry = [], singleflight = [(1, True, 0)], keepTextSection = False\<rparr> 1
             ''/bin/x'' ''b''
           = (Returned None, [ShouldInitiateUpload ''b''],
              \<lparr>retry = [(1, False, 5 * Minute)], singleflight = [(1, False, 0)],
               keepTextSection = False\<rparr>)"
    by (simp add: Upload_goroutine_def attemptUpload_def envDenied_def
        lruT_AddWithLifetime_def lruT_Add_def Minute_def)
  have e: "fst (lruT_Get (10 * Minute) [(1::nat, False, 5 * Minute)] 1) = None"
    by (simp add: lruT_Get_def Minute_def)
  have a: "fst (Upload (10 * Minute) envAllowed
             ((emptyUploader False)\<lparr>retry := [(1, False, 5 * Minute)]\<rparr>) 1 ''/bin/x'' ''b'')
           = [ShouldInitiateUpload ''b'', InitiateUpload ''b'' 1 1]"
    by (simp add: Upload_def Upload_start_def Upload_goroutine_def attemptUpload_def
        materialize_def transfer_def emptyUploader_def lruT_Get_def lruT_Add_def
        envAllowed_def envDenied_def Minute_def)
  from Upload_after_attempt_is_noop [where t' = "10 * Minute" and env' = envAllowed
      and t = 0 and env = "envDenied ReasonUploadInProgress"
      and u = "snd (Upload_start 0 (emptyUploader False) 1 ''b'')" and f = 1
      and p = "''/bin/x''" and b = "''b''" and p' = "''/bin/x''" and b' = "''b''"]
  show ?thesis
    by (simp only: s g e a fst_conv snd_conv ParcaSymbolUploader.select_convs simp_thms)
qed

section \<open>Properties of the snapshot encoder\<close>

subsection \<open>Concrete runs\<close>

lemma replicate_numeral: "replicate (numeral k) x = x # replicate (pred_numeral k) x"
  by (simp add: numeral_eq_Suc)

lemmas enc_defs = replicate_numeral getProfile_def getProfile_vars_def drainAndReturn_def rangeMap_def
  encodeSample_def encodeFrame_def getTraceLabels_def appendLabel_def getDummyMappingIndex_def
  stringIndex_def functionEntry_def getStringMapIndex_def createFunctionEntry_def newEncoder_def
  lru_Peek_def lru_Get_def lru_Add_def lru_Remove_def lru_Keys_def UnixMilli_def UnixNano_def
  zeroTraceInfo_def zeroSample_def NewFrameID_def List.map_filter_def

lemma exampleReporter_eq:
  "exampleReporter =
     \<lparr>hostmetadata = [],
      traces = [(1, \<lparr>files = [7], linenos = [4096], frameTypes = [NativeFrame],
                     comm = ''app'', podName = [], podNamespace = [],
                     containerName = [], apmServiceName = []\<rparr>)],
      samples = [(1, \<lparr>timestamps = [1000], count = 3\<rparr>)],
      fallbackSymbols = [], executables = [], frames = [], otlpBuildIDMode = ''linker''\<rparr>"
  by (simp add: exampleReporter_def ReportCountForTrace_def ReportFramesForTrace_def
      emptyReporter_def lru_Peek_def lru_Add_def)

lemma getProfile_emptyReporter:
  "getProfile exampleWorld (emptyReporter ''linker'')
     = Inr (\<lparr>SampleType = [\<lparr>Type = 1, Unit = 2\<rparr>], Sample = [], Mapping = [], Location = [],
             LocationIndices = [], Function = [],
             StringTable = [[], ''samples'', ''count'', ''cpu'', ''nanoseconds''],
             PeriodType = \<lparr>Type = 3, Unit = 4\<rparr>, Period = 50000000,
             DurationNanos = 0, TimeNanos = 0\<rparr>, 0, 0, emptyReporter ''linker'')"
  by (simp add: emptyReporter_def exampleWorld_def enc_defs)

text \<open>
  Claim C1 fails on the code. The snapshot of the example reporter has one sample with
  the one time stamp 1000 (1000000 on the wire, in milliseconds): the start time stamp
  is 1000, the end time stamp is 0 and not the maximum 1000, because the time stamp that
  becomes the start is never compared with the end.
\<close>

theorem getProfile_end_timestamp_not_max:
  "(case getProfile exampleWorld exampleReporter of
      Inl x \<Rightarrow> None
    | Inr (p, start, end', r') \<Rightarrow> Some (map Timestamps (Sample p), start, end'))
   = Some ([[1000000]], 1000, 0)"
  by (simp add: exampleReporter_eq exampleWorld_def enc_defs)

subsection \<open>The export\<close>

text \<open>
  Claim C9. Whenever \<open>getProfile\<close> returns a profile without samples,
  \<open>reportOTLPProfile\<close> returns nil and passes no request to the export call.
\<close>

theorem reportOTLPProfile_empty:
  assumes "getProfile W r = Inr (p, s, en, r')" and "Sample p = []"
  shows "reportOTLPProfile W export r reportInterval = Inr (None, [], r')"
  using assms by (simp add: reportOTLPProfile_def)

theorem reportOTLPProfile_empty_witness:
  "(case getProfile exampleWorld (emptyReporter ''linker'') of
      Inl x \<Rightarrow> False
    | Inr (p, s, en, r') \<Rightarrow> Sample p = [] \<and> r' = emptyReporter ''linker'')
   \<and> reportOTLPProfile exampleWorld (Some (Err ''unavailable'')) (emptyReporter ''linker'')
         5000000000
       = Inr (None, [], emptyReporter ''linker'')"
  using reportOTLPProfile_empty [OF getProfile_emptyReporter,
      where export = "Some (Err ''unavailable'')" and reportInterval = 5000000000]
  by (simp add: getProfile_emptyReporter)

subsection \<open>Draining the samples\<close>

lemma drainSamples_maps:
  "drainSamples ks (cpy, c) = (cpy', c') \<Longrightarrow>
     map_of cpy' = (\<lambda>k. if k \<in> set ks \<and> map_of c k \<noteq> None then map_of c k else map_of cpy k)
     \<and> map_of c' = (\<lambda>k. if k \<in> set ks then None else map_of c k)
     \<and> (distinct (map fst cpy) \<longrightarrow> distinct (map fst cpy'))"
proof (induction ks arbitrary: cpy c)
  case Nil
  then show ?case by simp
next
  case (Cons k ks)
  show ?case
  proof (cases "map_of c k")
    case None
    with Cons.prems have "drainSamples ks (cpy, c) = (cpy', c')"
      by (simp add: lru_Get_def)
    from Cons.IH [OF this] None show ?thesis
      by (auto simp add: fun_eq_iff)
  next
    case (Some v)
    with Cons.prems have "drainSamples ks (AList.update k v cpy, AList.delete k c) = (cpy', c')"
      by (simp add: lru_Get_def lru_Remove_def)
    from Cons.IH [OF this] Some show ?thesis
      by (auto simp add: fun_eq_iff update_conv' delete_conv' distinct_update)
  qed
qed

lemma drainSamples_all:
  assumes "drainSamples (map fst c) ([], c) = (cpy', c')"
  shows "map_of cpy' = map_of c" and "map_of c' = Map.empty" and "distinct (map fst cpy')"
proof -
  note d = drainSamples_maps [OF assms]
  have in_keys: "\<And>k. k \<notin> fst ` set c \<Longrightarrow> map_of c k = None"
    by (simp add: map_of_eq_None_iff)
  show "map_of cpy' = map_of c"
    using d in_keys by (auto simp add: fun_eq_iff)
  show "map_of c' = Map.empty"
    using d in_keys by (auto simp add: fun_eq_iff)
  show "distinct (map fst cpy')"
    using d by simp
qed

lemma returnSamples_maps:
  "distinct ts \<Longrightarrow> returnSamples ts (cpy, c) = (cpy', c') \<Longrightarrow>
     cpy' = filter (\<lambda>kv. fst kv \<notin> set ts) cpy
     \<and> map_of c' = (\<lambda>k. if k \<in> set ts
                          then Some (case map_of cpy k of Some v \<Rightarrow> v | None \<Rightarrow> zeroSample)
                          else map_of c k)"
proof (induction ts arbitrary: cpy c)
  case Nil
  then show ?case by simp
next
  case (Cons t ts)
  let ?cpy1 = "AList.delete t cpy"
  let ?c1 = "lru_Add c t (case map_of cpy t of Some v \<Rightarrow> v | None \<Rightarrow> zeroSample)"
  from Cons.prems have d: "distinct ts" and nt: "t \<notin> set ts"
    and run: "returnSamples ts (?cpy1, ?c1) = (cpy', c')"
    by simp_all
  from Cons.IH [OF d run]
  have 1: "cpy' = filter (\<lambda>kv. fst kv \<notin> set ts) ?cpy1"
    and 2: "map_of c' = (\<lambda>k. if k \<in> set ts
                          then Some (case map_of ?cpy1 k of Some v \<Rightarrow> v | None \<Rightarrow> zeroSample)
                          else map_of ?c1 k)"
    by simp_all
  have "cpy' = filter (\<lambda>kv. fst kv \<notin> set (t # ts)) cpy"
    unfolding 1 by (induction cpy) (auto simp add: AList.delete_eq)
  moreover have "map_of c' = (\<lambda>k. if k \<in> set (t # ts)
                          then Some (case map_of cpy k of Some v \<Rightarrow> v | None \<Rightarrow> zeroSample)
                          else map_of c k)"
    unfolding 2 using nt
    by (auto simp add: fun_eq_iff lru_Add_def update_conv' delete_conv')
  ultimately show ?case by simp
qed

lemma map_fst_map_filter:
  "map fst (List.map_filter (\<lambda>k. map_option (Pair k) (m k)) xs) = filter (\<lambda>k. m k \<noteq> None) xs"
  by (induction xs) (auto simp add: List.map_filter_simps split: option.splits)

lemma set_map_filter_lookup:
  "set (List.map_filter (\<lambda>k. map_option (Pair k) (m k)) xs) = {(k, v). k \<in> set xs \<and> m k = Some v}"
  by (induction xs) (auto simp add: List.map_filter_simps split: option.splits)

lemma rangeMap_keys:
  "map fst (rangeMap ord m)
     = filter (\<lambda>k. map_of m k \<noteq> None) (remdups ord) @ filter (\<lambda>k. k \<notin> set ord) (map fst m)"
  by (simp add: rangeMap_def map_fst_map_filter filter_map comp_def)

lemma rangeMap_distinct:
  "distinct (map fst m) \<Longrightarrow> distinct (map fst (rangeMap ord m))"
  by (auto simp add: rangeMap_keys distinct_map_filter)

lemma rangeMap_set:
  "distinct (map fst m) \<Longrightarrow> set (rangeMap ord m) = set m"
  by (auto simp add: rangeMap_def set_map_filter_lookup dest: map_of_SomeD)


lemma map_of_filter_keys:
  "map_of (filter (\<lambda>kv. fst kv \<notin> A) xs) k = (if k \<in> A then None else map_of xs k)"
  by (induction xs) auto

lemma drainAndReturn_spec:
  assumes "drainAndReturn W r = (cpy, r')"
  shows "distinct (map fst cpy)"
    and "map_of cpy = (\<lambda>k. if lru_Peek (traces r) k = None then None else map_of (samples r) k)"
    and "map_of (samples r')
           = (\<lambda>k. if lru_Peek (traces r) k = None then map_of (samples r) k else None)"
    and "r' = r\<lparr>samples := samples r'\<rparr>"
proof -
  obtain cpy0 c0 where dr: "drainSamples (map fst (samples r)) ([], samples r) = (cpy0, c0)"
    by (cases "drainSamples (map fst (samples r)) ([], samples r)")
  note d = drainSamples_all [OF dr]
  define wo where "wo = filter (\<lambda>trace. lru_Peek (traces r) trace = None)
                          (map fst (rangeMap (range_samplesCpy_first W) cpy0))"
  obtain cpy1 c1 where re: "returnSamples wo (cpy0, c0) = (cpy1, c1)"
    by (cases "returnSamples wo (cpy0, c0)")
  from assms dr re have res: "cpy = cpy1" "r' = r\<lparr>samples := c1\<rparr>"
    by (simp_all add: drainAndReturn_def lru_Keys_def wo_def [symmetric])
  have dwo: "distinct wo"
    unfolding wo_def using rangeMap_distinct [OF d(3)] by (simp add: distinct_map_filter)
  have swo: "set wo = {k. map_of cpy0 k \<noteq> None \<and> lru_Peek (traces r) k = None}"
  proof -
    have "set (map fst (rangeMap (range_samplesCpy_first W) cpy0)) = fst ` set cpy0"
      using rangeMap_set [OF d(3)] by simp
    then show ?thesis
      unfolding wo_def by (auto simp add: map_of_eq_None_iff)
  qed
  note rt = returnSamples_maps [OF dwo re]
  from rt have cpy1: "cpy1 = filter (\<lambda>kv. fst kv \<notin> set wo) cpy0" by simp
  show "distinct (map fst cpy)"
    unfolding res cpy1 using d(3) by (simp add: distinct_map_filter)
  show "map_of cpy = (\<lambda>k. if lru_Peek (traces r) k = None then None else map_of (samples r) k)"
  proof -
    have "map_of cpy k = (if k \<in> set wo then None else map_of cpy0 k)" for k
      unfolding res cpy1 by (rule map_of_filter_keys)
    then show ?thesis
      by (auto simp add: fun_eq_iff swo d(1))
  qed
  show "map_of (samples r')
           = (\<lambda>k. if lru_Peek (traces r) k = None then map_of (samples r) k else None)"
    using rt by (auto simp add: res fun_eq_iff swo d(1) d(2))
  show "r' = r\<lparr>samples := samples r'\<rparr>"
    by (simp add: res)
qed

lemma stringIndex_fields [simp]:
  "funcMap (snd (stringIndex v e)) = funcMap e"
  "fileIDtoMapping (snd (stringIndex v e)) = fileIDtoMapping e"
  "frameIDtoFunction (snd (stringIndex v e)) = frameIDtoFunction e"
  "profile_Sample (snd (stringIndex v e)) = profile_Sample e"
  "profile_Mapping (snd (stringIndex v e)) = profile_Mapping e"
  "profile_Location (snd (stringIndex v e)) = profile_Location e"
  "locationIndex (snd (stringIndex v e)) = locationIndex e"
  "startTS (snd (stringIndex v e)) = startTS e"
  "endTS (snd (stringIndex v e)) = endTS e"
  by (simp_all add: stringIndex_def split_beta)

lemma functionEntry_fields [simp]:
  "stringMap (snd (functionEntry n f e)) = stringMap e"
  "fileIDtoMapping (snd (functionEntry n f e)) = fileIDtoMapping e"
  "frameIDtoFunction (snd (functionEntry n f e)) = frameIDtoFunction e"
  "profile_Sample (snd (functionEntry n f e)) = profile_Sample e"
  "profile_Mapping (snd (functionEntry n f e)) = profile_Mapping e"
  "profile_Location (snd (functionEntry n f e)) = profile_Location e"
  "locationIndex (snd (functionEntry n f e)) = locationIndex e"
  "startTS (snd (functionEntry n f e)) = startTS e"
  "endTS (snd (functionEntry n f e)) = endTS e"
  by (simp_all add: functionEntry_def split_beta)

lemma getDummyMappingIndex_fields [simp]:
  "funcMap (snd (getDummyMappingIndex W f e)) = funcMap e"
  "frameIDtoFunction (snd (getDummyMappingIndex W f e)) = frameIDtoFunction e"
  "profile_Sample (snd (getDummyMappingIndex W f e)) = profile_Sample e"
  "profile_Location (snd (getDummyMappingIndex W f e)) = profile_Location e"
  "locationIndex (snd (getDummyMappingIndex W f e)) = locationIndex e"
  "startTS (snd (getDummyMappingIndex W f e)) = startTS e"
  "endTS (snd (getDummyMappingIndex W f e)) = endTS e"
  by (simp_all add: getDummyMappingIndex_def Let_def split_beta split: option.splits)

lemma appendLabel_fields [simp]:
  "funcMap (snd (appendLabel k v le)) = funcMap (snd le)"
  "fileIDtoMapping (snd (appendLabel k v le)) = fileIDtoMapping (snd le)"
  "frameIDtoFunction (snd (appendLabel k v le)) = frameIDtoFunction (snd le)"
  "profile_Sample (snd (appendLabel k v le)) = profile_Sample (snd le)"
  "profile_Mapping (snd (appendLabel k v le)) = profile_Mapping (snd le)"
  "profile_Location (snd (appendLabel k v le)) = profile_Location (snd le)"
  "locationIndex (snd (appendLabel k v le)) = locationIndex (snd le)"
  "startTS (snd (appendLabel k v le)) = startTS (snd le)"
  "endTS (snd (appendLabel k v le)) = endTS (snd le)"
  by (simp_all add: appendLabel_def split_beta)

lemma getTraceLabels_fields [simp]:
  "funcMap (snd (getTraceLabels t e)) = funcMap e"
  "fileIDtoMapping (snd (getTraceLabels t e)) = fileIDtoMapping e"
  "frameIDtoFunction (snd (getTraceLabels t e)) = frameIDtoFunction e"
  "profile_Sample (snd (getTraceLabels t e)) = profile_Sample e"
  "profile_Mapping (snd (getTraceLabels t e)) = profile_Mapping e"
  "profile_Location (snd (getTraceLabels t e)) = profile_Location e"
  "locationIndex (snd (getTraceLabels t e)) = locationIndex e"
  "startTS (snd (getTraceLabels t e)) = startTS e"
  "endTS (snd (getTraceLabels t e)) = endTS e"
  by (simp_all add: getTraceLabels_def)

lemma encodeFrame_fields:
  assumes "encodeFrame W r t i e = Inr e'"
  shows "profile_Sample e' = profile_Sample e"
    and "locationIndex e' = locationIndex e"
    and "startTS e' = startTS e"
    and "endTS e' = endTS e"
    and "frameIDtoFunction e' = frameIDtoFunction e"
  using assms
  by (auto simp add: encodeFrame_def Let_def split_beta
      split: if_splits FrameType.splits option.splits)

lemma encodeFrames_fields:
  assumes "encodeFrames W r t is e = Inr e'"
  shows "profile_Sample e' = profile_Sample e \<and> locationIndex e' = locationIndex e
         \<and> startTS e' = startTS e \<and> endTS e' = endTS e
         \<and> frameIDtoFunction e' = frameIDtoFunction e"
  using assms
proof (induction "is" arbitrary: e)
  case Nil
  then show ?case by simp
next
  case (Cons i "is")
  from Cons.prems obtain e1 where 1: "encodeFrame W r t i e = Inr e1"
    and 2: "encodeFrames W r t is e1 = Inr e'"
    by (auto split: sum.splits)
  from Cons.IH [OF 2] encodeFrame_fields [OF 1] show ?case by simp
qed


lemma encodeSample_sample:
  assumes "encodeSample W r entry e = Inr e'"
  shows "\<exists>s. profile_Sample e' = profile_Sample e @ [s]
           \<and> Value s = [ucast (count (snd entry))]
           \<and> Timestamps s = map UnixMilli (timestamps (snd entry))"
proof -
  let ?t = "case lru_Get (traces r) (fst entry) of Some t \<Rightarrow> t | None \<Rightarrow> zeroTraceInfo"
  let ?e1 = "snd (stringIndex (TraceHash_StringNoQuotes W (fst entry)) e)"
  let ?tr = "trackTimestamps (timestamps (snd entry)) (startTS ?e1, endTS ?e1)"
  let ?e2 = "?e1\<lparr>startTS := fst ?tr, endTS := snd ?tr\<rparr>"
  from assms obtain e3 where
    fr: "encodeFrames W r ?t [0..<length (frameTypes ?t)] ?e2 = Inr e3"
    by (auto simp add: encodeSample_def Let_def split_beta split: sum.splits)
  from encodeFrames_fields [OF fr] have "profile_Sample e3 = profile_Sample e"
    by simp
  with assms fr show ?thesis
    by (auto simp add: encodeSample_def Let_def split_beta)
qed

lemma encodeSamples_samples:
  assumes "encodeSamples W r entries e = Inr e'"
  shows "\<exists>ss. profile_Sample e' = profile_Sample e @ ss
           \<and> map Value ss = map (\<lambda>en. [ucast (count (snd en))]) entries
           \<and> map Timestamps ss = map (\<lambda>en. map UnixMilli (timestamps (snd en))) entries"
  using assms
proof (induction entries arbitrary: e)
  case Nil
  then show ?case by simp
next
  case (Cons en entries)
  from Cons.prems obtain e1 where 1: "encodeSample W r en e = Inr e1"
    and 2: "encodeSamples W r entries e1 = Inr e'"
    by (auto split: sum.splits)
  from encodeSample_sample [OF 1] obtain s where
    s: "profile_Sample e1 = profile_Sample e @ [s]" "Value s = [ucast (count (snd en))]"
       "Timestamps s = map UnixMilli (timestamps (snd en))"
    by blast
  from Cons.IH [OF 2] obtain ss where
    ss: "profile_Sample e' = profile_Sample e1 @ ss"
        "map Value ss = map (\<lambda>en. [ucast (count (snd en))]) entries"
        "map Timestamps ss = map (\<lambda>en. map UnixMilli (timestamps (snd en))) entries"
    by blast
  show ?case
    by (rule exI [where x = "s # ss"]) (simp add: s ss)
qed

lemma fillFuncTable_fields:
  assumes "fillFuncTable fs (tbl, e) = Inr (tbl', e')"
  shows "profile_Sample e' = profile_Sample e \<and> profile_Location e' = profile_Location e
         \<and> profile_Mapping e' = profile_Mapping e \<and> funcMap e' = funcMap e
         \<and> startTS e' = startTS e \<and> endTS e' = endTS e \<and> length tbl' = length tbl
         \<and> frameIDtoFunction e' = frameIDtoFunction e
         \<and> fileIDtoMapping e' = fileIDtoMapping e"
  using assms
proof (induction fs arbitrary: tbl e)
  case Nil
  then show ?case by simp
next
  case (Cons f fs)
  obtain v idx where f: "f = (v, idx)" by (cases f)
  let ?e2 = "snd (stringIndex (funcFileName v) (snd (stringIndex (name v) e)))"
  from Cons.prems f obtain tbl1 where
    "fillFuncTable fs (tbl1, ?e2) = Inr (tbl', e')" "length tbl1 = length tbl"
    by (auto simp add: split_beta split: if_splits)
  from Cons.IH [OF this(1)] this(2) show ?case by simp
qed

lemma getProfile_vars_samples:
  assumes "getProfile_vars W r = Inr (ix, e, funcTable, stringTable, r')"
  shows "\<exists>cpy. drainAndReturn W r = (cpy, r')
           \<and> map Value (profile_Sample e)
               = map (\<lambda>en. [ucast (count (snd en))]) (rangeMap (range_samplesCpy_second W) cpy)
           \<and> map Timestamps (profile_Sample e)
               = map (\<lambda>en. map UnixMilli (timestamps (snd en)))
                   (rangeMap (range_samplesCpy_second W) cpy)"
proof -
  obtain cpy r1 where dr: "drainAndReturn W r = (cpy, r1)"
    by (cases "drainAndReturn W r")
  let ?e4 = "snd (stringIndex ''nanoseconds'' (snd (stringIndex ''cpu''
               (snd (stringIndex ''count'' (snd (stringIndex ''samples'' newEncoder)))))))"
  from assms dr obtain e5 where
    enc: "encodeSamples W r1 (rangeMap (range_samplesCpy_second W) cpy) ?e4 = Inr e5"
    and fill: "fillFuncTable (rangeMap (range_funcMap W) (funcMap e5))
                 (replicate (length (funcMap e5)) None, e5) = Inr (funcTable, e)"
    and r1: "r1 = r'"
    by (auto simp add: getProfile_vars_def split_beta split: if_splits sum.splits)
  from encodeSamples_samples [OF enc] obtain ss where
    ss: "profile_Sample e5 = profile_Sample ?e4 @ ss"
        "map Value ss = map (\<lambda>en. [ucast (count (snd en))])
                          (rangeMap (range_samplesCpy_second W) cpy)"
        "map Timestamps ss = map (\<lambda>en. map UnixMilli (timestamps (snd en)))
                               (rangeMap (range_samplesCpy_second W) cpy)"
    by blast
  have "profile_Sample ?e4 = []" by (simp add: newEncoder_def)
  with ss fillFuncTable_fields [OF fill] dr r1 show ?thesis by simp
qed

text \<open>
  Claim C3. When \<open>getProfile\<close> returns, the samples of the profile are, in the order
  of emission, the samples of a duplicate-free list of trace hashes that has exactly the
  hashes for which the samples cache held a counter and the traces cache holds trace
  information: each of them has one sample, whose value is the counter's count and whose
  time stamps are the counter's time stamps (in milliseconds). Afterwards the samples
  cache holds, unchanged, exactly the counters without trace information.
\<close>

theorem getProfile_drains_once:
  assumes "getProfile W r = Inr (p, start, end', r')"
  shows "(\<exists>ks. distinct ks
            \<and> set ks = {k. lru_Peek (samples r) k \<noteq> None \<and> lru_Peek (traces r) k \<noteq> None}
            \<and> map Value (Sample p)
                = map (\<lambda>k. [ucast (count (the (lru_Peek (samples r) k)))]) ks
            \<and> map Timestamps (Sample p)
                = map (\<lambda>k. map UnixMilli (timestamps (the (lru_Peek (samples r) k)))) ks)
         \<and> lru_Peek (samples r')
             = (\<lambda>k. if lru_Peek (traces r) k = None then lru_Peek (samples r) k else None)"
proof -
  from assms obtain ix e funcTable stringTable where
    vars: "getProfile_vars W r = Inr (ix, e, funcTable, stringTable, r')"
    and p: "Sample p = profile_Sample e"
    by (auto simp add: getProfile_def split: sum.splits)
  from getProfile_vars_samples [OF vars] obtain cpy where
    dr: "drainAndReturn W r = (cpy, r')"
    and v: "map Value (profile_Sample e)
              = map (\<lambda>en. [ucast (count (snd en))]) (rangeMap (range_samplesCpy_second W) cpy)"
    and t: "map Timestamps (profile_Sample e)
              = map (\<lambda>en. map UnixMilli (timestamps (snd en)))
                  (rangeMap (range_samplesCpy_second W) cpy)"
    by blast
  note d = drainAndReturn_spec [OF dr]
  let ?es = "rangeMap (range_samplesCpy_second W) cpy"
  let ?ks = "map fst ?es"
  have look: "map_of (samples r) k = Some s" if "(k, s) \<in> set ?es" for k s
  proof -
    from that rangeMap_set [OF d(1)] have "(k, s) \<in> set cpy" by simp
    with d(1) have "map_of cpy k = Some s" by simp
    then show ?thesis by (simp add: d(2) split: if_splits)
  qed
  have 1: "distinct ?ks" by (rule rangeMap_distinct [OF d(1)])
  have 2: "set ?ks = {k. lru_Peek (samples r) k \<noteq> None \<and> lru_Peek (traces r) k \<noteq> None}"
  proof -
    have "set ?ks = fst ` set cpy" using rangeMap_set [OF d(1)] by simp
    also have "\<dots> = {k. map_of cpy k \<noteq> None}"
      by (auto simp add: map_of_eq_None_iff)
    finally show ?thesis by (auto simp add: d(2) lru_Peek_def)
  qed
  have 3: "map (\<lambda>en. [ucast (count (snd en))]) ?es
             = map (\<lambda>k. [ucast (count (the (lru_Peek (samples r) k))) :: 64 word]) ?ks"
    using look by (auto simp add: lru_Peek_def)
  have 4: "map (\<lambda>en. map UnixMilli (timestamps (snd en))) ?es
             = map (\<lambda>k. map UnixMilli (timestamps (the (lru_Peek (samples r) k)))) ?ks"
    using look by (auto simp add: lru_Peek_def)
  have 5: "lru_Peek (samples r')
             = (\<lambda>k. if lru_Peek (traces r) k = None then lru_Peek (samples r) k else None)"
    using d(3) by (simp add: lru_Peek_def fun_eq_iff)
  show ?thesis
    using 1 2 3 4 5 v t p by (intro conjI exI [where x = "?ks"]) simp_all
qed

theorem getProfile_drains_once_witness:
  "(case getProfile exampleWorld requeueReporter of
      Inl x \<Rightarrow> False
    | Inr (p, start, end', r') \<Rightarrow>
        map Value (Sample p) = [[3]]
        \<and> lru_Peek (samples r') 1 = None
        \<and> lru_Peek (samples r') 2 = Some \<lparr>timestamps = [1001], count = 5\<rparr>)"
proof -
  have "(case getProfile exampleWorld requeueReporter of
           Inl x \<Rightarrow> None
         | Inr (p, start, end', r') \<Rightarrow> Some (map Value (Sample p))) = Some [[3]]"
    by (simp add: requeueReporter_def exampleReporter_eq exampleWorld_def enc_defs)
  then obtain p start end' r' where
    g: "getProfile exampleWorld requeueReporter = Inr (p, start, end', r')"
    and v: "map Value (Sample p) = [[3]]"
    by (auto split: sum.splits)
  from getProfile_drains_once [OF g]
  have "lru_Peek (samples r')
          = (\<lambda>k. if lru_Peek (traces requeueReporter) k = None
                  then lru_Peek (samples requeueReporter) k else None)"
    by simp
  then have "lru_Peek (samples r') 1 = None"
    and "lru_Peek (samples r') 2 = Some \<lparr>timestamps = [1001], count = 5\<rparr>"
    by (simp_all add: requeueReporter_def exampleReporter_eq lru_Peek_def lru_Add_def)
  with g v show ?thesis by simp
qed

subsection \<open>The string table and the function table\<close>

lemma getStringMapIndex_grow: "\<exists>a. snd (getStringMapIndex sm v) = sm @ a"
  by (simp add: getStringMapIndex_def Let_def split: option.splits)

lemma getStringMapIndex_smOK: "smOK sm \<Longrightarrow> smOK (snd (getStringMapIndex sm v))"
  by (auto simp add: getStringMapIndex_def Let_def smOK_def map_of_eq_None_iff
      split: option.splits)

lemma getStringMapIndex_lookup:
  "map_of (snd (getStringMapIndex sm v)) v = Some (fst (getStringMapIndex sm v))"
  by (simp add: getStringMapIndex_def Let_def map_add_def split: option.splits)

lemma createFunctionEntry_grow: "\<exists>b. snd (createFunctionEntry fm n f) = fm @ b"
  by (simp add: createFunctionEntry_def Let_def split: option.splits)

lemma createFunctionEntry_fmOK: "fmOK fm \<Longrightarrow> fmOK (snd (createFunctionEntry fm n f))"
  by (auto simp add: createFunctionEntry_def Let_def fmOK_def map_of_eq_None_iff
      split: option.splits)

lemma createFunctionEntry_lookup:
  "map_of (snd (createFunctionEntry fm n f)) \<lparr>name = n, funcFileName = f\<rparr>
     = Some (fst (createFunctionEntry fm n f))"
  by (simp add: createFunctionEntry_def Let_def map_add_def split: option.splits)

lemma tablesGrow_refl [simp]: "tablesGrow e e"
  by (simp add: tablesGrow_def)

lemma tablesGrow_trans: "tablesGrow e e1 \<Longrightarrow> tablesGrow e1 e2 \<Longrightarrow> tablesGrow e e2"
  by (auto simp add: tablesGrow_def)

lemma stringMap_stringIndex:
  "stringMap (snd (stringIndex v e)) = snd (getStringMapIndex (stringMap e) v)"
  "fst (stringIndex v e) = fst (getStringMapIndex (stringMap e) v)"
  by (simp_all add: stringIndex_def split_beta)

lemma funcMap_functionEntry:
  "funcMap (snd (functionEntry n f e)) = snd (createFunctionEntry (funcMap e) n f)"
  "fst (functionEntry n f e) = fst (createFunctionEntry (funcMap e) n f)"
  by (simp_all add: functionEntry_def split_beta)

lemma tablesGrow_stringIndex: "tablesGrow e e1 \<Longrightarrow> tablesGrow e (snd (stringIndex v e1))"
proof (rule tablesGrow_trans)
  show "tablesGrow e1 (snd (stringIndex v e1))"
    using getStringMapIndex_grow [of "stringMap e1" v]
    by (simp add: tablesGrow_def stringMap_stringIndex getStringMapIndex_smOK)
qed

lemma tablesGrow_functionEntry:
  "tablesGrow e e1 \<Longrightarrow> tablesGrow e (snd (functionEntry n f e1))"
proof (rule tablesGrow_trans)
  show "tablesGrow e1 (snd (functionEntry n f e1))"
    using createFunctionEntry_grow [of "funcMap e1" n f]
    by (simp add: tablesGrow_def funcMap_functionEntry createFunctionEntry_fmOK)
qed

lemma tablesGrow_update [simp]:
  "tablesGrow e (e1\<lparr>fileIDtoMapping := a\<rparr>) = tablesGrow e e1"
  "tablesGrow e (e1\<lparr>profile_Sample := b\<rparr>) = tablesGrow e e1"
  "tablesGrow e (e1\<lparr>profile_Mapping := c\<rparr>) = tablesGrow e e1"
  "tablesGrow e (e1\<lparr>profile_Location := d\<rparr>) = tablesGrow e e1"
  "tablesGrow e (e1\<lparr>locationIndex := n\<rparr>) = tablesGrow e e1"
  "tablesGrow e (e1\<lparr>startTS := s\<rparr>) = tablesGrow e e1"
  "tablesGrow e (e1\<lparr>endTS := t\<rparr>) = tablesGrow e e1"
  by (simp_all add: tablesGrow_def)

lemma tablesGrow_getDummyMappingIndex:
  "tablesGrow e e1 \<Longrightarrow> tablesGrow e (snd (getDummyMappingIndex W f e1))"
  by (simp add: getDummyMappingIndex_def Let_def split_beta tablesGrow_stringIndex
      split: option.splits)

lemma tablesGrow_appendLabel:
  "tablesGrow e (snd le) \<Longrightarrow> tablesGrow e (snd (appendLabel k v le))"
  by (simp add: appendLabel_def split_beta tablesGrow_stringIndex)

lemma tablesGrow_getTraceLabels:
  "tablesGrow e e1 \<Longrightarrow> tablesGrow e (snd (getTraceLabels t e1))"
  by (simp add: getTraceLabels_def tablesGrow_appendLabel)

lemma tablesGrow_encodeFrame:
  assumes "encodeFrame W r t i e = Inr e'"
  shows "tablesGrow e e'"
  using assms
  by (auto simp add: encodeFrame_def Let_def split_beta tablesGrow_stringIndex
        tablesGrow_functionEntry tablesGrow_getDummyMappingIndex
      split: if_splits FrameType.splits option.splits)

lemma tablesGrow_encodeFrames:
  assumes "encodeFrames W r t is e = Inr e'"
  shows "tablesGrow e e'"
  using assms
proof (induction "is" arbitrary: e)
  case Nil
  then show ?case by simp
next
  case (Cons i "is")
  from Cons.prems obtain e1 where 1: "encodeFrame W r t i e = Inr e1"
    and 2: "encodeFrames W r t is e1 = Inr e'"
    by (auto split: sum.splits)
  from tablesGrow_encodeFrame [OF 1] Cons.IH [OF 2] show ?case
    by (rule tablesGrow_trans)
qed

lemma tablesGrow_encodeSample:
  assumes "encodeSample W r entry e = Inr e'"
  shows "tablesGrow e e'"
proof -
  let ?t = "case lru_Get (traces r) (fst entry) of Some t \<Rightarrow> t | None \<Rightarrow> zeroTraceInfo"
  let ?e1 = "snd (stringIndex (TraceHash_StringNoQuotes W (fst entry)) e)"
  let ?tr = "trackTimestamps (timestamps (snd entry)) (startTS ?e1, endTS ?e1)"
  let ?e2 = "?e1\<lparr>startTS := fst ?tr, endTS := snd ?tr\<rparr>"
  from assms obtain e3 where
    fr: "encodeFrames W r ?t [0..<length (frameTypes ?t)] ?e2 = Inr e3"
    by (auto simp add: encodeSample_def Let_def split_beta split: sum.splits)
  have "tablesGrow e ?e2" by (simp add: tablesGrow_stringIndex)
  with tablesGrow_encodeFrames [OF fr] have "tablesGrow e e3"
    by (blast intro: tablesGrow_trans)
  with assms fr show ?thesis
    by (auto simp add: encodeSample_def Let_def split_beta tablesGrow_getTraceLabels)
qed

lemma tablesGrow_encodeSamples:
  assumes "encodeSamples W r entries e = Inr e'"
  shows "tablesGrow e e'"
  using assms
proof (induction entries arbitrary: e)
  case Nil
  then show ?case by simp
next
  case (Cons en entries)
  from Cons.prems obtain e1 where 1: "encodeSample W r en e = Inr e1"
    and 2: "encodeSamples W r entries e1 = Inr e'"
    by (auto split: sum.splits)
  from tablesGrow_encodeSample [OF 1] Cons.IH [OF 2] show ?case
    by (rule tablesGrow_trans)
qed


lemma map_of_append_Some: "map_of xs k = Some v \<Longrightarrow> map_of (xs @ ys) k = Some v"
  by (simp add: map_add_def)

lemma tablesGrow_stringMap_lookup:
  "tablesGrow e e' \<Longrightarrow> map_of (stringMap e) v = Some i \<Longrightarrow> map_of (stringMap e') v = Some i"
  by (auto simp add: tablesGrow_def map_add_def)

lemma tablesGrow_funcMap_lookup:
  "tablesGrow e e' \<Longrightarrow> map_of (funcMap e) v = Some i \<Longrightarrow> map_of (funcMap e') v = Some i"
  by (auto simp add: tablesGrow_def map_add_def)

lemma stringIndex_lookup:
  "map_of (stringMap (snd (stringIndex v e))) v = Some (fst (stringIndex v e))"
  by (simp add: stringMap_stringIndex getStringMapIndex_lookup)

lemma fillFuncTable_spec:
  assumes "fillFuncTable fs (tbl, e) = Inr (tbl', e')" and "distinct (map snd fs)"
  shows "tablesGrow e e' \<and> funcMap e' = funcMap e \<and> length tbl' = length tbl
         \<and> (\<forall>(v, idx) \<in> set fs.
               idx < length tbl \<and> tbl' ! idx = Some (functionOf (stringMap e') v)
               \<and> map_of (stringMap e') (name v) \<noteq> None
               \<and> map_of (stringMap e') (funcFileName v) \<noteq> None)
         \<and> (\<forall>j. j \<notin> snd ` set fs \<longrightarrow> tbl' ! j = tbl ! j)"
  using assms
proof (induction fs arbitrary: tbl e)
  case Nil
  then show ?case by simp
next
  case (Cons f fs)
  obtain v idx where f: "f = (v, idx)" by (cases f)
  let ?e1 = "snd (stringIndex (name v) e)"
  let ?e2 = "snd (stringIndex (funcFileName v) ?e1)"
  let ?n = "fst (stringIndex (name v) e)"
  let ?f = "fst (stringIndex (funcFileName v) ?e1)"
  let ?tbl1 = "tbl[idx := Some \<lparr>Name = ?n, FunctionFilename = ?f\<rparr>]"
  from Cons.prems f have idx: "idx < length tbl"
    and run: "fillFuncTable fs (?tbl1, ?e2) = Inr (tbl', e')"
    and d: "distinct (map snd fs)" and ni: "idx \<notin> snd ` set fs"
    by (auto simp add: split_beta split: if_splits)
  note IH = Cons.IH [OF run d]
  have g12: "tablesGrow ?e1 ?e2" by (simp add: tablesGrow_stringIndex)
  have g02: "tablesGrow e ?e2" by (simp add: tablesGrow_stringIndex)
  from IH have g2: "tablesGrow ?e2 e'" by simp
  have n: "map_of (stringMap e') (name v) = Some ?n"
    by (rule tablesGrow_stringMap_lookup [OF g2])
       (rule tablesGrow_stringMap_lookup [OF g12], rule stringIndex_lookup)
  have fl: "map_of (stringMap e') (funcFileName v) = Some ?f"
    by (rule tablesGrow_stringMap_lookup [OF g2]) (rule stringIndex_lookup)
  from IH ni idx have "tbl' ! idx = Some \<lparr>Name = ?n, FunctionFilename = ?f\<rparr>"
    by simp
  with n fl have here: "tbl' ! idx = Some (functionOf (stringMap e') v)"
    by (simp add: functionOf_def)
  have "tablesGrow e e'" using g02 g2 by (rule tablesGrow_trans)
  moreover have "funcMap e' = funcMap e" using IH by simp
  moreover have "length tbl' = length tbl" using IH by simp
  moreover have "\<forall>(v, idx) \<in> set (f # fs).
               idx < length tbl \<and> tbl' ! idx = Some (functionOf (stringMap e') v)
               \<and> map_of (stringMap e') (name v) \<noteq> None
               \<and> map_of (stringMap e') (funcFileName v) \<noteq> None"
    using IH here idx n fl by (auto simp add: f)
  moreover have "\<forall>j. j \<notin> snd ` set (f # fs) \<longrightarrow> tbl' ! j = tbl ! j"
    using IH by (auto simp add: f)
  ultimately show ?case by blast
qed

lemma fillStringTable_spec:
  assumes "fillStringTable fs tbl = Inr tbl'" and "distinct (map snd fs)"
  shows "length tbl' = length tbl
         \<and> (\<forall>(v, idx) \<in> set fs. idx < length tbl \<and> tbl' ! idx = v)
         \<and> (\<forall>j. j \<notin> snd ` set fs \<longrightarrow> tbl' ! j = tbl ! j)"
  using assms
proof (induction fs arbitrary: tbl)
  case Nil
  then show ?case by simp
next
  case (Cons f fs)
  obtain v idx where f: "f = (v, idx)" by (cases f)
  from Cons.prems f have idx: "idx < length tbl"
    and run: "fillStringTable fs (tbl[idx := v]) = Inr tbl'"
    and d: "distinct (map snd fs)" and ni: "idx \<notin> snd ` set fs"
    by (auto split: if_splits)
  note IH = Cons.IH [OF run d]
  from IH ni idx have "tbl' ! idx = v" by simp
  with IH idx show ?case by (auto simp add: f)
qed


lemma rangeMap_distinct_snd:
  assumes "distinct (map fst m)" and "distinct (map snd m)"
  shows "distinct (map snd (rangeMap ord m))"
proof -
  from rangeMap_distinct [OF assms(1)] have "distinct (rangeMap ord m)"
    by (simp add: distinct_map)
  moreover from assms(2) have "inj_on snd (set m)"
    by (simp add: distinct_map)
  ultimately show ?thesis
    by (simp add: distinct_map rangeMap_set [OF assms(1)])
qed

lemma smOK_indices:
  assumes "smOK sm" and "length sm \<le> 2 ^ 32"
  shows "map snd sm = [0..<length sm]"
proof -
  have "map (\<lambda>i. i mod 2 ^ 32) [0..<length sm] = map (\<lambda>i. i) [0..<length sm]"
    using assms(2) by (intro map_cong) auto
  with assms(1) show ?thesis by (simp add: smOK_def)
qed

lemma indexed_entry:
  assumes "map snd xs = [0..<length xs]" and "i < length xs"
  shows "(fst (xs ! i), i) \<in> set xs"
proof -
  from assms have "snd (xs ! i) = i"
    by (metis add_0 nth_map nth_upt)
  with assms(2) show ?thesis
    by (metis nth_mem prod.collapse)
qed

lemma smOK_newEncoder: "smOK (stringMap newEncoder)" "fmOK (funcMap newEncoder)"
  by (simp_all add: smOK_def fmOK_def newEncoder_def)

lemma fillStringTable_length:
  "fillStringTable fs tbl = Inr tbl' \<Longrightarrow> length tbl' = length tbl"
  by (induction fs arbitrary: tbl) (auto split: if_splits)

lemma getProfile_vars_tables:
  assumes "getProfile_vars W r = Inr (ix, e, funcTable, stringTable, r')"
    and "length stringTable \<le> 2 ^ 32"
  shows "distinct (map fst (stringMap e))"
    and "map snd (stringMap e) = [0..<length (stringMap e)]"
    and "stringTable = map fst (stringMap e)"
    and "\<exists>a. stringMap e = ([], 0) # a"
    and "distinct (map fst (funcMap e))"
    and "map snd (funcMap e) = [0..<length (funcMap e)]"
    and "funcTable = map (\<lambda>v. Some (functionOf (stringMap e) v)) (map fst (funcMap e))"
    and "\<forall>v \<in> fst ` set (funcMap e).
           map_of (stringMap e) (name v) \<noteq> None \<and> map_of (stringMap e) (funcFileName v) \<noteq> None"
proof -
  obtain cpy r1 where dr: "drainAndReturn W r = (cpy, r1)"
    by (cases "drainAndReturn W r")
  let ?e4 = "snd (stringIndex ''nanoseconds'' (snd (stringIndex ''cpu''
               (snd (stringIndex ''count'' (snd (stringIndex ''samples'' newEncoder)))))))"
  let ?fs = "rangeMap (range_funcMap W) (funcMap e)"
  let ?ss = "rangeMap (range_stringMap W) (stringMap e)"
  from assms(1) dr obtain e5 where
    enc: "encodeSamples W r1 (rangeMap (range_samplesCpy_second W) cpy) ?e4 = Inr e5"
    and fill: "fillFuncTable (rangeMap (range_funcMap W) (funcMap e5))
                 (replicate (length (funcMap e5)) None, e5) = Inr (funcTable, e)"
    and fillS: "fillStringTable ?ss (replicate (length (stringMap e)) []) = Inr stringTable"
    by (auto simp add: getProfile_vars_def split_beta split: if_splits sum.splits)
  have g04: "tablesGrow newEncoder ?e4"
    by (intro tablesGrow_stringIndex tablesGrow_refl)
  have g45: "tablesGrow ?e4 e5" by (rule tablesGrow_encodeSamples [OF enc])
  have g05: "tablesGrow newEncoder e5" using g04 g45 by (rule tablesGrow_trans)
  then have fm5: "fmOK (funcMap e5)"
    using smOK_newEncoder by (simp add: tablesGrow_def)
  then have dF: "distinct (map snd (rangeMap (range_funcMap W) (funcMap e5)))"
    by (intro rangeMap_distinct_snd) (simp_all add: fmOK_def)
  note F = fillFuncTable_spec [OF fill dF]
  from F have g5: "tablesGrow e5 e" and fme: "funcMap e5 = funcMap e"
    and lenF: "length funcTable = length (funcMap e)"
    by simp_all
  have g0: "tablesGrow newEncoder e" using g05 g5 by (rule tablesGrow_trans)
  then have sm: "smOK (stringMap e)"
    using smOK_newEncoder by (simp add: tablesGrow_def)
  show 1: "distinct (map fst (stringMap e))" using sm by (simp add: smOK_def)
  have lenS: "length stringTable = length (stringMap e)"
    using fillStringTable_length [OF fillS] by simp
  show 2: "map snd (stringMap e) = [0..<length (stringMap e)]"
    using sm assms(2) lenS by (simp add: smOK_indices)
  have dS: "distinct (map snd ?ss)"
    using 1 2 by (intro rangeMap_distinct_snd) simp_all
  note S = fillStringTable_spec [OF fillS dS]
  show "stringTable = map fst (stringMap e)"
  proof (rule nth_equalityI)
    show "length stringTable = length (map fst (stringMap e))" using lenS by simp
  next
    fix i assume "i < length stringTable"
    with lenS have i: "i < length (stringMap e)" by simp
    from indexed_entry [OF 2 i] have "(fst (stringMap e ! i), i) \<in> set ?ss"
      by (simp add: rangeMap_set [OF 1])
    with S have "stringTable ! i = fst (stringMap e ! i)" by auto
    with i show "stringTable ! i = map fst (stringMap e) ! i" by simp
  qed
  show "\<exists>a. stringMap e = ([], 0) # a"
    using g0 by (auto simp add: tablesGrow_def newEncoder_def)
  show 5: "distinct (map fst (funcMap e))" using fm5 fme by (simp add: fmOK_def)
  show 6: "map snd (funcMap e) = [0..<length (funcMap e)]" using fm5 fme by (simp add: fmOK_def)
  show "funcTable = map (\<lambda>v. Some (functionOf (stringMap e) v)) (map fst (funcMap e))"
  proof (rule nth_equalityI)
    show "length funcTable
            = length (map (\<lambda>v. Some (functionOf (stringMap e) v)) (map fst (funcMap e)))"
      using lenF by simp
  next
    fix i assume "i < length funcTable"
    with lenF have i: "i < length (funcMap e)" by simp
    from indexed_entry [OF 6 i] have "(fst (funcMap e ! i), i) \<in> set ?fs"
      by (simp add: rangeMap_set [OF 5])
    with F fme have "funcTable ! i = Some (functionOf (stringMap e) (fst (funcMap e ! i)))"
      by auto
    with i show "funcTable ! i
                   = map (\<lambda>v. Some (functionOf (stringMap e) v)) (map fst (funcMap e)) ! i"
      by simp
  qed
  show "\<forall>v \<in> fst ` set (funcMap e).
           map_of (stringMap e) (name v) \<noteq> None \<and> map_of (stringMap e) (funcFileName v) \<noteq> None"
  proof
    fix v assume "v \<in> fst ` set (funcMap e)"
    then obtain idx where "(v, idx) \<in> set ?fs"
      by (auto simp add: rangeMap_set [OF 5])
    with F fme show "map_of (stringMap e) (name v) \<noteq> None
                     \<and> map_of (stringMap e) (funcFileName v) \<noteq> None"
      by auto
  qed
qed


lemma indexed_entry_nth:
  assumes "map snd xs = [0..<length xs]" and "(v, idx) \<in> set xs"
  shows "idx < length xs \<and> xs ! idx = (v, idx)"
proof -
  from assms(2) obtain i where i: "i < length xs" "xs ! i = (v, idx)"
    by (auto simp add: in_set_conv_nth)
  from assms(1) i(1) have "snd (xs ! i) = i"
    by (metis add_0 nth_map nth_upt)
  with i show ?thesis by simp
qed

text \<open>
  The tables of a snapshot with a string table of at most \<open>2\<^sup>3\<^sup>2\<close> entries. When
  \<open>getProfile\<close> returns, its string map and its function map (value to index) have one entry for a
  value, and their indices are 0, 1, ... up to the length of the table less one, each
  once: different values have different indices and no index is unused. The string table
  holds at every index the string with that index, the empty string at index 0; the
  function table holds at every index an entry whose two string indices are those of the
  name and the file name of the function with that index.
\<close>

theorem getProfile_tables:
  assumes "getProfile W r = Inr (p, start, end', r')"
    and "length (StringTable p) \<le> 2 ^ 32"
  shows "\<exists>ix e. getProfile_vars W r = Inr (ix, e, Function p, StringTable p, r')
           \<and> distinct (map fst (stringMap e))
           \<and> map snd (stringMap e) = [0..<length (StringTable p)]
           \<and> (\<forall>(v, idx) \<in> set (stringMap e). StringTable p ! idx = v)
           \<and> map_of (stringMap e) [] = Some 0 \<and> StringTable p ! 0 = []
           \<and> distinct (map fst (funcMap e))
           \<and> map snd (funcMap e) = [0..<length (Function p)]
           \<and> (\<forall>(v, idx) \<in> set (funcMap e).
                 \<exists>f. Function p ! idx = Some f \<and> StringTable p ! Name f = name v
                      \<and> StringTable p ! FunctionFilename f = funcFileName v)"
proof -
  from assms(1) obtain ix e where
    vars: "getProfile_vars W r = Inr (ix, e, Function p, StringTable p, r')"
    by (auto simp add: getProfile_def split: sum.splits)
  note T = getProfile_vars_tables [OF vars assms(2)]
  from T(3) have lenS: "length (StringTable p) = length (stringMap e)" by simp
  from T(7) have lenF: "length (Function p) = length (funcMap e)" by simp
  have str: "StringTable p ! idx = v" if "(v, idx) \<in> set (stringMap e)" for v idx
  proof -
    from indexed_entry_nth [OF T(2) that] have "idx < length (stringMap e)"
      and "stringMap e ! idx = (v, idx)" by simp_all
    then show ?thesis by (simp add: T(3))
  qed
  have look: "StringTable p ! the (map_of (stringMap e) s) = s"
    if "map_of (stringMap e) s \<noteq> None" for s
  proof -
    from that obtain i where "map_of (stringMap e) s = Some i" by auto
    then show ?thesis by (auto dest!: map_of_SomeD intro: str)
  qed
  from T(4) obtain a where a: "stringMap e = ([], 0) # a" by blast
  have fn: "\<exists>f. Function p ! idx = Some f \<and> StringTable p ! Name f = name v
                 \<and> StringTable p ! FunctionFilename f = funcFileName v"
    if "(v, idx) \<in> set (funcMap e)" for v idx
  proof -
    from indexed_entry_nth [OF T(6) that] have i: "idx < length (funcMap e)"
      and at: "funcMap e ! idx = (v, idx)" by simp_all
    then have "Function p ! idx = Some (functionOf (stringMap e) v)"
      by (simp add: T(7))
    moreover from T(8) that have "map_of (stringMap e) (name v) \<noteq> None"
      and "map_of (stringMap e) (funcFileName v) \<noteq> None"
      by force+
    ultimately show ?thesis
      by (simp add: functionOf_def look)
  qed
  show ?thesis
    using vars T(1) T(2) T(5) T(6) lenS lenF str fn a
    by (intro exI [where x = ix] exI [where x = e]) (auto simp add: a)
qed

lemma kernelReporter_eq:
  "kernelReporter =
     \<lparr>hostmetadata = [],
      traces = [(3, \<lparr>files = [9, 9, 9], linenos = [16, 32, 16],
                     frameTypes = [KernelFrame, KernelFrame, KernelFrame],
                     comm = ''kworker'', podName = [], podNamespace = [],
                     containerName = [], apmServiceName = []\<rparr>)],
      samples = [(3, \<lparr>timestamps = [1000], count = 1\<rparr>)],
      fallbackSymbols = [((9, 16), ''do_syscall_64'')], executables = [], frames = [],
      otlpBuildIDMode = ''hash''\<rparr>"
  by (simp add: kernelReporter_def ReportFallbackSymbol_def ReportCountForTrace_def
      ReportFramesForTrace_def emptyReporter_def NewFrameID_def lru_Peek_def lru_Add_def)

theorem getProfile_tables_witness:
  "(case getProfile exampleWorld kernelReporter of
      Inl x \<Rightarrow> False
    | Inr (p, start, end', r') \<Rightarrow>
        length (StringTable p) \<le> 2 ^ 32
        \<and> StringTable p ! 0 = []
        \<and> StringTable p =
            [[], ''samples'', ''count'', ''cpu'', ''nanoseconds'', ''ttt'', ''kernel'',
             ''DUMMY'', ''fffffffff'', ''comm'', ''kworker'', ''do_syscall_64'', ''vmlinux'',
             ''UNKNOWN'']
        \<and> Function p = [Some \<lparr>Name = 11, FunctionFilename = 12\<rparr>,
                         Some \<lparr>Name = 13, FunctionFilename = 12\<rparr>])"
proof -
  have "(case getProfile exampleWorld kernelReporter of
           Inl x \<Rightarrow> None
         | Inr (p, start, end', r') \<Rightarrow> Some (StringTable p, Function p))
        = Some ([[], ''samples'', ''count'', ''cpu'', ''nanoseconds'', ''ttt'', ''kernel'',
                 ''DUMMY'', ''fffffffff'', ''comm'', ''kworker'', ''do_syscall_64'',
                 ''vmlinux'', ''UNKNOWN''],
                [Some \<lparr>Name = 11, FunctionFilename = 12\<rparr>,
                 Some \<lparr>Name = 13, FunctionFilename = 12\<rparr>])"
    by (simp add: kernelReporter_eq exampleWorld_def enc_defs)
  then obtain p start end' r' where
    g: "getProfile exampleWorld kernelReporter = Inr (p, start, end', r')"
    and st: "StringTable p =
               [[], ''samples'', ''count'', ''cpu'', ''nanoseconds'', ''ttt'', ''kernel'',
                ''DUMMY'', ''fffffffff'', ''comm'', ''kworker'', ''do_syscall_64'',
                ''vmlinux'', ''UNKNOWN'']"
    and fn: "Function p = [Some \<lparr>Name = 11, FunctionFilename = 12\<rparr>,
                           Some \<lparr>Name = 13, FunctionFilename = 12\<rparr>]"
    by (auto split: sum.splits)
  have len: "length (StringTable p) \<le> 2 ^ 32" by (simp add: st)
  from getProfile_tables [OF g len] have "StringTable p ! 0 = []" by blast
  with g len show ?thesis by (simp add: st fn)
qed

subsection \<open>A string table of more than \<open>2\<^sup>3\<^sup>2\<close> entries\<close>

lemma bigCount_pos: "0 < bigCount"
  by (simp add: bigCount_def)

lemma bigCount_wrap: "(bigCount + 4) mod 2 ^ 32 = 0" "bigCount + 5 = 2 ^ 32 + 1"
  by (simp_all add: bigCount_def)

lemma bigHashes_distinct: "distinct bigHashes"
  by (simp add: bigHashes_def)

lemma bigHashes_length: "length bigHashes = bigCount"
  by (simp add: bigHashes_def)

lemma bigHashes_pos: "h \<in> set bigHashes \<Longrightarrow> 0 < h"
  by (auto simp add: bigHashes_def)

lemma bigHashes_last: "bigHashes = [1..<bigCount] @ [bigCount]"
  using bigCount_pos by (simp add: bigHashes_def)

lemma update_fresh: "k \<notin> fst ` set al \<Longrightarrow> AList.update k v al = al @ [(k, v)]"
  by (induction al) auto

lemma drainSamples_distinct:
  "distinct (map fst c) \<Longrightarrow> fst ` set cpy \<inter> fst ` set c = {} \<Longrightarrow>
     drainSamples (map fst c) (cpy, c) = (cpy @ c, [])"
proof (induction c arbitrary: cpy)
  case Nil
  then show ?case by simp
next
  case (Cons kv c)
  obtain k v where kv: "kv = (k, v)" by (cases kv)
  from Cons.prems kv have fresh: "k \<notin> fst ` set cpy" and nk: "k \<notin> fst ` set c"
    and d: "distinct (map fst c)"
    and dj: "fst ` set (cpy @ [(k, v)]) \<inter> fst ` set c = {}"
    by auto
  have "drainSamples (map fst (kv # c)) (cpy, kv # c)
          = drainSamples (map fst c) (cpy @ [(k, v)], c)"
    using fresh nk by (simp add: kv lru_Get_def lru_Remove_def update_fresh)
  also have "\<dots> = ((cpy @ [(k, v)]) @ c, [])"
    by (rule Cons.IH [OF d dj])
  finally show ?case by (simp add: kv)
qed

lemma rangeMap_Nil: "rangeMap [] m = m"
  by (simp add: rangeMap_def)

lemma map_of_map_keys: "map_of (map (\<lambda>h. (h, f h)) hs) k = (if k \<in> set hs then Some (f k) else None)"
  by (induction hs) auto

lemma drainAndReturn_bigReporter:
  "drainAndReturn exampleWorld bigReporter = (samples bigReporter, bigReporter\<lparr>samples := []\<rparr>)"
proof -
  have d: "distinct (map fst (samples bigReporter))"
    by (simp add: bigReporter_def comp_def bigHashes_distinct)
  have dr: "drainSamples (map fst (samples bigReporter)) ([], samples bigReporter)
              = (samples bigReporter, [])"
    using drainSamples_distinct [OF d, of "[]"] by simp
  have wo: "filter (\<lambda>trace. lru_Peek (traces bigReporter) trace = None)
              (map fst (samples bigReporter)) = []"
    by (simp add: filter_empty_conv bigReporter_def lru_Peek_def map_of_map_keys)
  show ?thesis
    by (simp add: drainAndReturn_def lru_Keys_def dr rangeMap_Nil exampleWorld_def wo)
qed


text \<open>A sample whose trace information has no frames and no labels adds its hash string.\<close>

lemma encodeSample_no_frames:
  assumes "lru_Get (traces r) h = Some zeroTraceInfo"
  shows "\<exists>e'. encodeSample W r (h, s) e = Inr e'
           \<and> stringMap e' = snd (getStringMapIndex (stringMap e) (TraceHash_StringNoQuotes W h))
           \<and> funcMap e' = funcMap e"
  using assms
  by (simp add: encodeSample_def Let_def split_beta zeroTraceInfo_def getTraceLabels_def
      appendLabel_def stringMap_stringIndex)

lemma encodeSamples_no_frames:
  assumes "\<forall>h \<in> set hs. lru_Get (traces r) h = Some zeroTraceInfo"
  shows "\<exists>e'. encodeSamples W r (map (\<lambda>h. (h, f h)) hs) e = Inr e'
           \<and> stringMap e'
               = foldl (\<lambda>sm h. snd (getStringMapIndex sm (TraceHash_StringNoQuotes W h)))
                   (stringMap e) hs
           \<and> funcMap e' = funcMap e"
  using assms
proof (induction hs arbitrary: e)
  case Nil
  then show ?case by simp
next
  case (Cons h hs)
  from Cons.prems have "lru_Get (traces r) h = Some zeroTraceInfo" by simp
  from encodeSample_no_frames [OF this, of W "f h" e] obtain e1 where
    1: "encodeSample W r (h, f h) e = Inr e1"
    and 2: "stringMap e1 = snd (getStringMapIndex (stringMap e) (TraceHash_StringNoQuotes W h))"
    and 3: "funcMap e1 = funcMap e"
    by blast
  from Cons.prems have "\<forall>h \<in> set hs. lru_Get (traces r) h = Some zeroTraceInfo" by simp
  from Cons.IH [OF this, of e1] 1 2 3 show ?case by simp
qed

lemma foldl_getStringMapIndex_keys:
  assumes "distinct (map str hs)" and "\<forall>h \<in> set hs. str h \<notin> fst ` set sm"
  shows "map fst (foldl (\<lambda>sm h. snd (getStringMapIndex sm (str h))) sm hs)
           = map fst sm @ map str hs"
  using assms
proof (induction hs arbitrary: sm)
  case Nil
  then show ?case by simp
next
  case (Cons h hs)
  from Cons.prems have new: "map_of sm (str h) = None"
    by (simp add: map_of_eq_None_iff)
  then have step: "snd (getStringMapIndex sm (str h)) = sm @ [(str h, length sm mod 2 ^ 32)]"
    by (simp add: getStringMapIndex_def Let_def)
  from Cons.prems have d: "distinct (map str hs)" and nh: "str h \<notin> str ` set hs"
    and old: "\<forall>h' \<in> set hs. str h' \<notin> fst ` set sm"
    by simp_all
  have f: "\<forall>h' \<in> set hs. str h' \<notin> fst ` set (sm @ [(str h, length sm mod 2 ^ 32)])"
  proof
    fix h' assume h': "h' \<in> set hs"
    with nh have "str h' \<noteq> str h" by (metis imageI)
    with old h' show "str h' \<notin> fst ` set (sm @ [(str h, length sm mod 2 ^ 32)])"
      by auto
  qed
  from Cons.IH [OF d f] show ?case by (simp add: step)
qed

lemma foldl_getStringMapIndex_smOK:
  "smOK sm \<Longrightarrow> smOK (foldl (\<lambda>sm h. snd (getStringMapIndex sm (str h))) sm hs)"
  by (induction hs arbitrary: sm) (simp_all add: getStringMapIndex_smOK)

lemma fillStringTable_total:
  "\<forall>(v, idx) \<in> set fs. idx < length tbl \<Longrightarrow>
     \<exists>t. fillStringTable fs tbl = Inr t \<and> length t = length tbl"
proof (induction fs arbitrary: tbl)
  case Nil
  then show ?case by simp
next
  case (Cons f fs)
  obtain v idx where f: "f = (v, idx)" by (cases f)
  from Cons.prems f have "idx < length tbl"
    and "\<forall>(v', idx') \<in> set fs. idx' < length (tbl[idx := v])"
    by auto
  from Cons.IH [OF this(2)] this(1) show ?case by (simp add: f)
qed

lemma fillStringTable_append:
  "fillStringTable (xs @ ys) tbl
     = (case fillStringTable xs tbl of Inl p \<Rightarrow> Inl p | Inr t \<Rightarrow> fillStringTable ys t)"
  by (induction xs arbitrary: tbl) (auto split: sum.splits)

lemma fillStringTable_last:
  assumes "\<forall>(v, idx) \<in> set xs. idx < length tbl" and "i < length tbl"
  shows "\<exists>t. fillStringTable (xs @ [(v, i)]) tbl = Inr t \<and> t ! i = v \<and> length t = length tbl"
proof -
  from fillStringTable_total [OF assms(1)] obtain t1 where
    "fillStringTable xs tbl = Inr t1" "length t1 = length tbl" by blast
  with assms(2) show ?thesis by (simp add: fillStringTable_append)
qed


lemma hash_strings_distinct: "distinct (map (\<lambda>h. replicate h CHR ''t'') bigHashes)"
proof -
  have "inj_on (\<lambda>h. replicate h CHR ''t'') (set bigHashes)"
    by (rule inj_onI) (metis length_replicate)
  then show ?thesis by (simp add: distinct_map bigHashes_distinct)
qed

lemma hash_strings_fresh:
  assumes "h \<in> set bigHashes"
  shows "replicate h CHR ''t''
           \<notin> fst ` set [([], 0::nat), (''samples'', 1), (''count'', 2), (''cpu'', 3),
                          (''nanoseconds'', 4)]"
proof -
  from bigHashes_pos [OF assms] obtain n where "h = Suc n" by (cases h) auto
  then show ?thesis by simp
qed

lemma last_entry:
  assumes "map fst sm = ks @ [k]" and "map snd sm = map g [0..<length sm]"
  shows "sm = butlast sm @ [(k, g (length ks))]"
proof -
  from assms(1) have len: "length sm = Suc (length ks)"
    by (metis length_append_singleton length_map)
  then have ne: "sm \<noteq> []" by auto
  have "fst (last sm) = k"
    using assms(1) ne by (metis last_map snoc_eq_iff_butlast)
  moreover have "snd (last sm) = g (length ks)"
  proof -
    have "snd (last sm) = last (map snd sm)" using ne by (simp add: last_map)
    also have "\<dots> = last (map g [0..<Suc (length ks)])" using assms(2) len by simp
    also have "\<dots> = g (length ks)" by simp
    finally show ?thesis .
  qed
  ultimately have "last sm = (k, g (length ks))" by (simp add: prod_eq_iff)
  with ne show ?thesis by (metis append_butlast_last_id)
qed

lemma bigStringMap_keys:
  "map fst bigStringMap
     = map fst [([], 0::nat), (''samples'', 1), (''count'', 2), (''cpu'', 3), (''nanoseconds'', 4)]
       @ map (\<lambda>h. replicate h CHR ''t'') bigHashes"
  unfolding bigStringMap_def
  by (rule foldl_getStringMapIndex_keys [OF hash_strings_distinct])
     (intro ballI hash_strings_fresh)

lemma bigStringMap_length: "length bigStringMap = bigCount + 5"
  using arg_cong [OF bigStringMap_keys, of length] by (simp add: bigHashes_length)

lemma bigStringMap_snds:
  "map snd bigStringMap = map (\<lambda>i. i mod 2 ^ 32) [0..<length bigStringMap]"
proof -
  have "smOK bigStringMap"
    unfolding bigStringMap_def by (rule foldl_getStringMapIndex_smOK) (simp add: smOK_def)
  then show ?thesis by (simp add: smOK_def)
qed

lemma bigStringMap_last:
  "bigStringMap = butlast bigStringMap @ [(replicate bigCount CHR ''t'', 0)]"
proof -
  let ?ks = "map fst [([], 0::nat), (''samples'', 1), (''count'', 2), (''cpu'', 3),
                      (''nanoseconds'', 4)]
             @ map (\<lambda>h. replicate h CHR ''t'') [1..<bigCount]"
  have keys': "map fst bigStringMap = ?ks @ [replicate bigCount CHR ''t'']"
    using bigStringMap_keys by (subst (asm) bigHashes_last) simp
  have lk: "length ?ks = bigCount + 4"
    using bigCount_pos by simp
  from last_entry [OF keys' bigStringMap_snds] show ?thesis
    by (simp only: lk bigCount_wrap(1))
qed

lemma nth_of_snds:
  assumes "map snd xs = map g [0..<length xs]" and "i < length xs"
  shows "snd (xs ! i) = g i"
proof -
  from assms(2) have "snd (xs ! i) = map snd xs ! i" by simp
  also have "\<dots> = map g [0..<length xs] ! i" by (simp only: assms(1))
  also have "\<dots> = g i" using assms(2) by simp
  finally show ?thesis .
qed

lemma mod_bound: "(i::nat) mod 2 ^ 32 < 2 ^ 32"
  by (rule mod_less_divisor) simp

lemma bigStringMap_bound:
  assumes "(v, idx) \<in> set bigStringMap"
  shows "idx < length bigStringMap"
proof -
  from assms obtain i where i: "i < length bigStringMap" "bigStringMap ! i = (v, idx)"
    by (auto simp add: in_set_conv_nth)
  from nth_of_snds [OF bigStringMap_snds i(1)] i(2) have "idx = i mod 2 ^ 32"
    by simp
  then have "idx < 2 ^ 32"
    by (simp only: mod_bound)
  also have "(2::nat) ^ 32 < length bigStringMap"
    by (simp only: bigStringMap_length bigCount_wrap(2))
  finally show ?thesis .
qed

lemma bigStringMap_fill:
  "\<exists>t. fillStringTable bigStringMap (replicate (length bigStringMap) []) = Inr t
        \<and> t ! 0 = replicate bigCount CHR ''t'' \<and> length t = bigCount + 5"
proof -
  have small: "\<forall>(v, idx) \<in> set (butlast bigStringMap).
                 idx < length (replicate (length bigStringMap) ([]::string))"
  proof (clarify)
    fix v idx assume "(v, idx) \<in> set (butlast bigStringMap)"
    then have "(v, idx) \<in> set bigStringMap" by (rule in_set_butlastD)
    then show "idx < length (replicate (length bigStringMap) ([]::string))"
      by (simp only: length_replicate) (rule bigStringMap_bound)
  qed
  have zero: "0 < length (replicate (length bigStringMap) ([]::string))"
    by (simp only: length_replicate bigStringMap_length)
  from fillStringTable_last [OF small zero, of "replicate bigCount CHR ''t''"]
  obtain t where
    "fillStringTable (butlast bigStringMap @ [(replicate bigCount CHR ''t'', 0)])
       (replicate (length bigStringMap) []) = Inr t"
    and "t ! 0 = replicate bigCount CHR ''t''"
    and "length t = length (replicate (length bigStringMap) ([]::string))"
    by blast
  then show ?thesis
    by (simp only: bigStringMap_last [symmetric] length_replicate bigStringMap_length) blast
qed


lemma bigReporter_encode:
  "\<exists>e5. encodeSamples exampleWorld (bigReporter\<lparr>samples := []\<rparr>) (samples bigReporter)
            (snd (stringIndex ''nanoseconds'' (snd (stringIndex ''cpu''
               (snd (stringIndex ''count'' (snd (stringIndex ''samples'' newEncoder)))))))) = Inr e5
        \<and> stringMap e5 = bigStringMap \<and> funcMap e5 = []"
proof -
  let ?W = exampleWorld
  let ?e4 = "snd (stringIndex ''nanoseconds'' (snd (stringIndex ''cpu''
               (snd (stringIndex ''count'' (snd (stringIndex ''samples'' newEncoder)))))))"
  let ?r1 = "bigReporter\<lparr>samples := []\<rparr>"
  let ?step = "\<lambda>sm h. snd (getStringMapIndex sm (TraceHash_StringNoQuotes ?W h))"
  have str: "TraceHash_StringNoQuotes ?W = (\<lambda>h. replicate h CHR ''t'')"
    by (simp add: exampleWorld_def)
  have e4s: "stringMap ?e4
               = [([], 0), (''samples'', 1), (''count'', 2), (''cpu'', 3), (''nanoseconds'', 4)]"
    and e4f: "funcMap ?e4 = []"
    by (simp_all add: stringIndex_def getStringMapIndex_def newEncoder_def)
  have cpy: "samples bigReporter = map (\<lambda>h. (h, \<lparr>timestamps = [1], count = 1\<rparr>)) bigHashes"
    by (simp add: bigReporter_def)
  have tr: "\<forall>h \<in> set bigHashes. lru_Get (traces ?r1) h = Some zeroTraceInfo"
    by (simp add: bigReporter_def lru_Get_def map_of_map_keys)
  from encodeSamples_no_frames [OF tr, of ?W "\<lambda>h. \<lparr>timestamps = [1], count = 1\<rparr>" ?e4]
  obtain e5 where
    enc0: "encodeSamples ?W ?r1 (map (\<lambda>h. (h, \<lparr>timestamps = [1], count = 1\<rparr>)) bigHashes) ?e4
             = Inr e5"
    and sm0: "stringMap e5 = foldl ?step (stringMap ?e4) bigHashes"
    and fm0: "funcMap e5 = funcMap ?e4"
    by blast
  from enc0 have "encodeSamples ?W ?r1 (samples bigReporter) ?e4 = Inr e5"
    by (simp only: cpy)
  moreover from sm0 have "stringMap e5 = bigStringMap"
    by (simp only: e4s str bigStringMap_def)
  moreover from fm0 have "funcMap e5 = []"
    by (simp only: e4f)
  ultimately show ?thesis by blast
qed


text \<open>
  Claim C5 fails on the code. The index of a new string is the length of the string map
  converted to \<^verbatim>\<open>uint32\<close>, which wraps around at \<open>2\<^sup>3\<^sup>2\<close> strings (the index of a new
  function is a \<^verbatim>\<open>uint64\<close> and does not). The snapshot of \<open>bigReporter\<close> has
  \<open>2\<^sup>3\<^sup>2 + 1\<close> strings, and at index 0 its string table holds the hash string of the last
  trace, which is not empty: that string received the index 0 of the empty string, against
  the comment of the source by which the first element of the string table is empty.
\<close>

theorem getProfile_string_index_wraps:
  "(case getProfile exampleWorld bigReporter of
      Inl x \<Rightarrow> None
    | Inr (p, start, end', r') \<Rightarrow> Some (StringTable p ! 0, length (StringTable p)))
     = Some (replicate bigCount CHR ''t'', bigCount + 5)
   \<and> replicate bigCount CHR ''t'' \<noteq> [] \<and> bigCount + 5 = 2 ^ 32 + 1"
proof -
  from bigReporter_encode obtain e5 where
    enc: "encodeSamples exampleWorld (bigReporter\<lparr>samples := []\<rparr>) (samples bigReporter)
            (snd (stringIndex ''nanoseconds'' (snd (stringIndex ''cpu''
               (snd (stringIndex ''count'' (snd (stringIndex ''samples'' newEncoder))))))))
          = Inr e5"
    and sm: "stringMap e5 = bigStringMap" and fm: "funcMap e5 = []"
    by blast
  from bigStringMap_fill obtain t where
    fillS: "fillStringTable bigStringMap (replicate (length bigStringMap) []) = Inr t"
    and t0: "t ! 0 = replicate bigCount CHR ''t''" and tl: "length t = bigCount + 5"
    by blast
  have ix: "fst (stringIndex ''samples'' newEncoder) = 1"
    "fst (stringIndex ''count'' (snd (stringIndex ''samples'' newEncoder))) = 2"
    "fst (stringIndex ''cpu'' (snd (stringIndex ''count''
       (snd (stringIndex ''samples'' newEncoder))))) = 3"
    "fst (stringIndex ''nanoseconds'' (snd (stringIndex ''cpu''
       (snd (stringIndex ''count'' (snd (stringIndex ''samples'' newEncoder))))))) = 4"
    by (simp_all add: stringIndex_def getStringMapIndex_def newEncoder_def)
  have sps: "SamplesPerSecond exampleWorld \<noteq> 0"
    and ro: "range_samplesCpy_second exampleWorld = []" "range_funcMap exampleWorld = []"
      "range_stringMap exampleWorld = []"
    by (simp_all add: exampleWorld_def)
  have vars: "getProfile_vars exampleWorld bigReporter
                = Inr ((1, 2, 3, 4), e5, [], t, bigReporter\<lparr>samples := []\<rparr>)"
    by (simp add: getProfile_vars_def drainAndReturn_bigReporter split_beta sps ro rangeMap_Nil
        enc sm fm fillS ix)
  have "replicate bigCount CHR ''t'' \<noteq> []"
    using bigCount_pos by simp
  then show ?thesis
    by (simp add: getProfile_def vars t0 tl bigCount_wrap(2))
qed

subsection \<open>Kernel frames\<close>

lemma functionEntry_lookup:
  "map_of (funcMap (snd (functionEntry n f e))) \<lparr>name = n, funcFileName = f\<rparr>
     = Some (fst (functionEntry n f e))"
  by (simp add: funcMap_functionEntry createFunctionEntry_lookup)

lemma encodeFrame_location:
  assumes "encodeFrame W r t i e = Inr e'" and "frameIDtoFunction e = Map.empty"
  shows "\<exists>loc. profile_Location e' = profile_Location e @ [loc]
           \<and> (frameTypes t ! i = KernelFrame \<longrightarrow>
                (\<exists>n. map_of (funcMap e')
                        (kernelFunction r (NewFrameID (files t ! i) (linenos t ! i))) = Some n
                     \<and> Lines loc = [\<lparr>FunctionIndex = Suc n, Line = 0\<rparr>]))"
  using assms
  by (auto simp add: encodeFrame_def Let_def split_beta kernelFunction_def functionEntry_lookup
      split: if_splits FrameType.splits option.splits)

lemma locsOK_encodeFrame:
  assumes "locsOK r fs e" and "encodeFrame W r t i e = Inr e'"
  shows "locsOK r (fs @ [(frameTypes t ! i, files t ! i, linenos t ! i)]) e'"
proof -
  from assms(1) have emp: "frameIDtoFunction e = Map.empty"
    and len: "length (profile_Location e) = length fs"
    by (simp_all add: locsOK_def)
  from encodeFrame_location [OF assms(2) emp] obtain loc where
    loc: "profile_Location e' = profile_Location e @ [loc]"
    and kern: "frameTypes t ! i = KernelFrame \<longrightarrow>
                (\<exists>n. map_of (funcMap e')
                        (kernelFunction r (NewFrameID (files t ! i) (linenos t ! i))) = Some n
                     \<and> Lines loc = [\<lparr>FunctionIndex = Suc n, Line = 0\<rparr>])"
    by blast
  note g = tablesGrow_encodeFrame [OF assms(2)]
  have emp': "frameIDtoFunction e' = Map.empty"
    using encodeFrame_fields(5) [OF assms(2)] emp by simp
  have "\<exists>n. map_of (funcMap e') (kernelFunction r (NewFrameID f a)) = Some n
             \<and> Lines (profile_Location e' ! k) = [\<lparr>FunctionIndex = Suc n, Line = 0\<rparr>]"
    if k: "k < length (fs @ [(frameTypes t ! i, files t ! i, linenos t ! i)])"
      and at: "(fs @ [(frameTypes t ! i, files t ! i, linenos t ! i)]) ! k = (KernelFrame, f, a)"
    for k f a
  proof (cases "k < length fs")
    case True
    with at have "fs ! k = (KernelFrame, f, a)" by (simp add: nth_append)
    with assms(1) True obtain n where
      "map_of (funcMap e) (kernelFunction r (NewFrameID f a)) = Some n"
      "Lines (profile_Location e ! k) = [\<lparr>FunctionIndex = Suc n, Line = 0\<rparr>]"
      unfolding locsOK_def by blast
    with tablesGrow_funcMap_lookup [OF g] True len loc show ?thesis
      by (auto simp add: nth_append)
  next
    case False
    with k have "k = length fs" by simp
    with at kern len loc show ?thesis by (auto simp add: nth_append)
  qed
  with emp' len loc show ?thesis
    unfolding locsOK_def by simp
qed

lemma locsOK_encodeFrames:
  assumes "locsOK r fs e" and "encodeFrames W r t is e = Inr e'"
  shows "locsOK r (fs @ map (\<lambda>i. (frameTypes t ! i, files t ! i, linenos t ! i)) is) e'"
  using assms
proof (induction "is" arbitrary: fs e)
  case Nil
  then show ?case by simp
next
  case (Cons i "is")
  from Cons.prems(2) obtain e1 where 1: "encodeFrame W r t i e = Inr e1"
    and 2: "encodeFrames W r t is e1 = Inr e'"
    by (auto split: sum.splits)
  from Cons.IH [OF locsOK_encodeFrame [OF Cons.prems(1) 1] 2] show ?case by simp
qed

lemma locsOK_cong:
  assumes "locsOK r fs e" and "frameIDtoFunction e' = frameIDtoFunction e"
    and "profile_Location e' = profile_Location e" and "funcMap e' = funcMap e"
  shows "locsOK r fs e'"
  using assms by (simp add: locsOK_def)

lemma locsOK_encodeSample:
  assumes "locsOK r fs e" and "encodeSample W r entry e = Inr e'"
  shows "locsOK r (fs @ traceFrames (case lru_Get (traces r) (fst entry) of
                                       Some t \<Rightarrow> t | None \<Rightarrow> zeroTraceInfo)) e'"
proof -
  let ?t = "case lru_Get (traces r) (fst entry) of Some t \<Rightarrow> t | None \<Rightarrow> zeroTraceInfo"
  let ?e1 = "snd (stringIndex (TraceHash_StringNoQuotes W (fst entry)) e)"
  let ?tr = "trackTimestamps (timestamps (snd entry)) (startTS ?e1, endTS ?e1)"
  let ?e2 = "?e1\<lparr>startTS := fst ?tr, endTS := snd ?tr\<rparr>"
  from assms(2) obtain e3 where
    fr: "encodeFrames W r ?t [0..<length (frameTypes ?t)] ?e2 = Inr e3"
    by (auto simp add: encodeSample_def Let_def split_beta split: sum.splits)
  have "locsOK r fs ?e2"
    by (rule locsOK_cong [OF assms(1)]) simp_all
  from locsOK_encodeFrames [OF this fr] have 3: "locsOK r (fs @ traceFrames ?t) e3"
    by (simp add: traceFrames_def)
  from assms(2) fr have "frameIDtoFunction e' = frameIDtoFunction e3"
    and "profile_Location e' = profile_Location e3" and "funcMap e' = funcMap e3"
    by (auto simp add: encodeSample_def Let_def split_beta)
  with 3 show ?thesis by (rule locsOK_cong)
qed

lemma locsOK_encodeSamples:
  assumes "locsOK r fs e" and "encodeSamples W r entries e = Inr e'"
  shows "locsOK r (fs @ concat (map (\<lambda>entry. traceFrames
                                      (case lru_Get (traces r) (fst entry) of
                                         Some t \<Rightarrow> t | None \<Rightarrow> zeroTraceInfo)) entries)) e'"
  using assms
proof (induction entries arbitrary: fs e)
  case Nil
  then show ?case by simp
next
  case (Cons en entries)
  from Cons.prems(2) obtain e1 where 1: "encodeSample W r en e = Inr e1"
    and 2: "encodeSamples W r entries e1 = Inr e'"
    by (auto split: sum.splits)
  from Cons.IH [OF locsOK_encodeSample [OF Cons.prems(1) 1] 2] show ?case by simp
qed


lemma getProfile_vars_run:
  assumes "getProfile_vars W r = Inr (ix, e, funcTable, stringTable, r')"
  shows "\<exists>cpy e5. drainAndReturn W r = (cpy, r')
           \<and> encodeSamples W r' (rangeMap (range_samplesCpy_second W) cpy)
                 (snd (stringIndex ''nanoseconds'' (snd (stringIndex ''cpu''
                    (snd (stringIndex ''count'' (snd (stringIndex ''samples'' newEncoder))))))))
               = Inr e5
           \<and> fillFuncTable (rangeMap (range_funcMap W) (funcMap e5))
                 (replicate (length (funcMap e5)) None, e5) = Inr (funcTable, e)"
proof -
  obtain cpy r1 where dr: "drainAndReturn W r = (cpy, r1)"
    by (cases "drainAndReturn W r")
  with assms show ?thesis
    by (auto simp add: getProfile_vars_def split_beta split: if_splits sum.splits)
qed

text \<open>
  Claim C6. When \<open>getProfile\<close> returns, the profile has one location for every
  encoded frame, in the order of encoding; and two kernel frames with the same file ID and
  the same address (the same reconstructed frame ID) have a line record with the same
  function index, which is 1-based and within the function table.
\<close>

theorem getProfile_kernel_frames_share_function:
  assumes "getProfile W r = Inr (p, start, end', r')"
    and "i < length (emittedFrames W r)" and "j < length (emittedFrames W r)"
    and "emittedFrames W r ! i = (KernelFrame, f, a)"
    and "emittedFrames W r ! j = (KernelFrame, f, a)"
  shows "length (Location p) = length (emittedFrames W r)
         \<and> (\<exists>n. n < length (Function p)
                \<and> Lines (Location p ! i) = [\<lparr>FunctionIndex = Suc n, Line = 0\<rparr>]
                \<and> Lines (Location p ! j) = [\<lparr>FunctionIndex = Suc n, Line = 0\<rparr>])"
proof -
  let ?e4 = "snd (stringIndex ''nanoseconds'' (snd (stringIndex ''cpu''
               (snd (stringIndex ''count'' (snd (stringIndex ''samples'' newEncoder)))))))"
  from assms(1) obtain ix e where
    vars: "getProfile_vars W r = Inr (ix, e, Function p, StringTable p, r')"
    and loc: "Location p = profile_Location e"
    by (auto simp add: getProfile_def split: sum.splits)
  from getProfile_vars_run [OF vars] obtain cpy e5 where
    dr: "drainAndReturn W r = (cpy, r')"
    and enc: "encodeSamples W r' (rangeMap (range_samplesCpy_second W) cpy) ?e4 = Inr e5"
    and fill: "fillFuncTable (rangeMap (range_funcMap W) (funcMap e5))
                 (replicate (length (funcMap e5)) None, e5) = Inr (Function p, e)"
    by blast
  from drainAndReturn_spec(4) [OF dr] have r': "r' = r\<lparr>samples := samples r'\<rparr>" .
  have tr: "traces r' = traces r" and fb: "fallbackSymbols r' = fallbackSymbols r"
    by (subst r', simp)+
  have kf: "kernelFunction r' = kernelFunction r"
    by (simp add: kernelFunction_def fun_eq_iff fb)
  have "locsOK r' [] ?e4" by (simp add: locsOK_def newEncoder_def)
  from locsOK_encodeSamples [OF this enc] have 5: "locsOK r' (emittedFrames W r) e5"
    by (simp add: emittedFrames_def dr tr)
  note F = fillFuncTable_fields [OF fill]
  have ok: "locsOK r' (emittedFrames W r) e"
    by (rule locsOK_cong [OF 5]) (simp_all add: F)
  have lenF: "length (Function p) = length (funcMap e)"
    using F by simp
  have "tablesGrow newEncoder ?e4"
    by (intro tablesGrow_stringIndex tablesGrow_refl)
  from this tablesGrow_encodeSamples [OF enc] have "tablesGrow newEncoder e5"
    by (rule tablesGrow_trans)
  with smOK_newEncoder F have fm: "fmOK (funcMap e)"
    by (simp add: tablesGrow_def)
  from ok assms(2,4) obtain n where
    n: "map_of (funcMap e) (kernelFunction r' (NewFrameID f a)) = Some n"
    and li: "Lines (profile_Location e ! i) = [\<lparr>FunctionIndex = Suc n, Line = 0\<rparr>]"
    unfolding locsOK_def by blast
  from ok assms(3,5) obtain m where
    m: "map_of (funcMap e) (kernelFunction r' (NewFrameID f a)) = Some m"
    and lj: "Lines (profile_Location e ! j) = [\<lparr>FunctionIndex = Suc m, Line = 0\<rparr>]"
    unfolding locsOK_def by blast
  from n m have nm: "m = n" by simp
  from n have "(kernelFunction r' (NewFrameID f a), n) \<in> set (funcMap e)"
    by (rule map_of_SomeD)
  with fm have "n < length (funcMap e)"
    using indexed_entry_nth [of "funcMap e"] by (simp add: fmOK_def)
  moreover from ok have "length (profile_Location e) = length (emittedFrames W r)"
    by (simp add: locsOK_def)
  ultimately show ?thesis
    using li lj nm lenF loc by auto
qed

theorem getProfile_kernel_frames_share_function_witness:
  "(case getProfile exampleWorld kernelReporter of
      Inl x \<Rightarrow> False
    | Inr (p, start, end', r') \<Rightarrow>
        emittedFrames exampleWorld kernelReporter
          = [(KernelFrame, 9, 16), (KernelFrame, 9, 32), (KernelFrame, 9, 16)]
        \<and> map Lines (Location p)
            = [[\<lparr>FunctionIndex = 1, Line = 0\<rparr>], [\<lparr>FunctionIndex = 2, Line = 0\<rparr>],
               [\<lparr>FunctionIndex = 1, Line = 0\<rparr>]]
        \<and> Lines (Location p ! 0) = Lines (Location p ! 2))"
proof -
  have fs: "emittedFrames exampleWorld kernelReporter
              = [(KernelFrame, 9, 16), (KernelFrame, 9, 32), (KernelFrame, 9, 16)]"
    by (simp add: emittedFrames_def traceFrames_def kernelReporter_eq exampleWorld_def enc_defs)
  have "(case getProfile exampleWorld kernelReporter of
           Inl x \<Rightarrow> None
         | Inr (p, start, end', r') \<Rightarrow> Some (map Lines (Location p)))
        = Some [[\<lparr>FunctionIndex = 1, Line = 0\<rparr>], [\<lparr>FunctionIndex = 2, Line = 0\<rparr>],
                [\<lparr>FunctionIndex = 1, Line = 0\<rparr>]]"
    by (simp add: kernelReporter_eq exampleWorld_def enc_defs)
  then obtain p start end' r' where
    g: "getProfile exampleWorld kernelReporter = Inr (p, start, end', r')"
    and ls: "map Lines (Location p)
               = [[\<lparr>FunctionIndex = 1, Line = 0\<rparr>], [\<lparr>FunctionIndex = 2, Line = 0\<rparr>],
                  [\<lparr>FunctionIndex = 1, Line = 0\<rparr>]]"
    by (auto split: sum.splits)
  have i: "0 < length (emittedFrames exampleWorld kernelReporter)"
    and j: "2 < length (emittedFrames exampleWorld kernelReporter)"
    and ai: "emittedFrames exampleWorld kernelReporter ! 0 = (KernelFrame, 9, 16)"
    and aj: "emittedFrames exampleWorld kernelReporter ! 2 = (KernelFrame, 9, 16)"
    by (simp_all add: fs)
  from getProfile_kernel_frames_share_function [OF g i j ai aj]
  have "Lines (Location p ! 0) = Lines (Location p ! 2)" by auto
  with g fs ls show ?thesis by simp
qed


subsection \<open>Mappings of executables without metadata\<close>
















end
